theory Spec2Isabelle
  imports Main "HOL-Library.AList"
begin

section \<open>Strings\<close>

text \<open>
  Go strings are byte sequences; \<^typ>\<open>string\<close> is a list of bytes. The functions below are
  the ones of package \<^verbatim>\<open>strings\<close> that \<^verbatim>\<open>wkldReplicate\<close> calls, restricted to the way it
  calls them (every separator is a non-empty literal).
\<close>

fun HasPrefix :: "string \<Rightarrow> string \<Rightarrow> bool" where
  "HasPrefix s [] = True"
| "HasPrefix [] (p # ps) = False"
| "HasPrefix (c # cs) (p # ps) = (c = p \<and> HasPrefix cs ps)"

fun Contains :: "string \<Rightarrow> string \<Rightarrow> bool" where
  "Contains [] sub = (sub = [])"
| "Contains (c # cs) sub = (HasPrefix (c # cs) sub \<or> Contains cs sub)"

text \<open>\<^verbatim>\<open>strings.Split(s, sep)[0]\<close>: the text before the first \<^verbatim>\<open>sep\<close>, all of \<^verbatim>\<open>s\<close> when there is none.\<close>

fun SplitFirst :: "string \<Rightarrow> string \<Rightarrow> string" where
  "SplitFirst [] sep = []"
| "SplitFirst (c # cs) sep = (if HasPrefix (c # cs) sep then [] else c # SplitFirst cs sep)"

text \<open>\<^verbatim>\<open>strings.Split(s, ",")\<close>; the result is never empty.\<close>

fun SplitComma :: "string \<Rightarrow> string list" where
  "SplitComma [] = [[]]"
| "SplitComma (c # cs) =
     (if c = CHR '','' then [] # SplitComma cs
      else (case SplitComma cs of [] \<Rightarrow> [[c]] | x # xs \<Rightarrow> (c # x) # xs))"

text \<open>\<^verbatim>\<open>strings.Replace(s, " ", "", -1)\<close>\<close>

definition RemoveSpaces :: "string \<Rightarrow> string" where
  "RemoveSpaces s = filter (\<lambda>c. c \<noteq> CHR '' '') s"

fun Join :: "string list \<Rightarrow> string \<Rightarrow> string" where
  "Join [] sep = []"
| "Join [x] sep = x"
| "Join (x # y # ys) sep = x @ sep @ Join (y # ys) sep"

text \<open>
  \<^verbatim>\<open>strings.ToLower\<close> on the ASCII letters. Bytes from 128 on (parts of multi-byte runes) are
  left as they are: no rune outside ASCII has \<^verbatim>\<open>y\<close>, \<^verbatim>\<open>e\<close> or \<^verbatim>\<open>s\<close> as its lower case, and
  the only use of the function is the comparison with \<^verbatim>\<open>"yes"\<close>.
\<close>

definition ToLowerChar :: "char \<Rightarrow> char" where
  "ToLowerChar c =
     (if 65 \<le> (of_char c :: nat) \<and> (of_char c :: nat) \<le> 90
      then char_of ((of_char c :: nat) + 32) else c)"

definition ToLower :: "string \<Rightarrow> string" where
  "ToLower s = map ToLowerChar s"

text \<open>\<^verbatim>\<open>utils.PtrToStr\<close>: the empty string for a nil pointer. \<^verbatim>\<open>utils.StrToPtr\<close> is \<^const>\<open>Some\<close>.\<close>

definition PtrToStr :: "string option \<Rightarrow> string" where
  "PtrToStr p = (case p of None \<Rightarrow> [] | Some s \<Rightarrow> s)"

section \<open>Data\<close>

text \<open>
  The structs of the client library, with the fields \<^verbatim>\<open>wkldReplicate\<close> reads.
  \<^verbatim>\<open>Mode\<close> holds what \<^verbatim>\<open>w.GetMode()\<close> returns and \<^verbatim>\<open>Interfaces\<close> what
  \<^verbatim>\<open>wkldexport.InterfaceToString(w, true)\<close> returns; a workload's labels are the hrefs of its
  labels, resolved through the label map of its PCE.
\<close>

record Label =
  LabelHref :: string
  Key :: string
  Value :: string

record Workload =
  Href :: string
  Hostname :: string
  Name :: string
  Mode :: string
  Labels :: "string list"
  Interfaces :: "string list"
  ExternalDataSet :: "string option"
  ExternalDataReference :: "string option"

record PCE =
  FriendlyName :: string
  FQDN :: string
  VersionMajor :: int
  VersionMinor :: int
  LabelMap :: "string \<rightharpoonup> Label"
  WorkloadsSlice :: "Workload list"

record replicateWkld =
  pce :: PCE
  workload :: Workload

definition emptyLabel :: Label where
  "emptyLabel = \<lparr>LabelHref = [], Key = [], Value = []\<rparr>"

text \<open>A Go map read at a missing key gives the zero value.\<close>

definition labelAt :: "(string \<rightharpoonup> Label) \<Rightarrow> string \<Rightarrow> Label" where
  "labelAt m h = (case m h of None \<Rightarrow> emptyLabel | Some l \<Rightarrow> l)"

text \<open>
  Modelled from the spec: \<^verbatim>\<open>Workload.GetLabelByKey\<close> belongs to the client library, whose
  sources are not part of the repository. A workload has sparse key-to-value label
  assignments; the lookup returns the workload's first label with the key, and the zero
  label when it has none.
\<close>

fun GetLabelByKey :: "string list \<Rightarrow> string \<Rightarrow> (string \<rightharpoonup> Label) \<Rightarrow> Label" where
  "GetLabelByKey [] k m = emptyLabel"
| "GetLabelByKey (h # hs) k m =
     (if Key (labelAt m h) = k then labelAt m h else GetLabelByKey hs k m)"

fun labelSlice :: "Workload \<Rightarrow> PCE \<Rightarrow> string list \<Rightarrow> string list" where
  "labelSlice w p [] = []"
| "labelSlice w p (k # ks) =
     (let label = GetLabelByKey (Labels w) k (LabelMap p)
      in (if Key label = [] then ''wkld-replicate-remove'' else Value label) # labelSlice w p ks)"

text \<open>
  Modelled from the spec: the column names \<^verbatim>\<open>wkldexport.HeaderHostname\<close>, ... are constants of
  a package whose sources are not given; the spec names the columns of the upsert file.
\<close>

definition HeaderHostname :: string where "HeaderHostname = ''hostname''"
definition HeaderDescription :: string where "HeaderDescription = ''description''"
definition HeaderInterfaces :: string where "HeaderInterfaces = ''interfaces''"
definition HeaderExternalDataSet :: string where "HeaderExternalDataSet = ''externalDataSet''"
definition HeaderExternalDataReference :: string where
  "HeaderExternalDataReference = ''externalDataReference''"

section \<open>The state of a run\<close>

text \<open>
  The two workload maps are Go maps from \<^verbatim>\<open>FQDN + hostname\<close> to a \<^typ>\<open>replicateWkld\<close>. They are
  association lists with one entry per key (\<^const>\<open>AList.update\<close> overwrites), read with
  \<^const>\<open>map_of\<close>. Go leaves the order in which a map is ranged over open; the model ranges over
  the unmanaged map in the order of first insertion, and no statement below depends on it.
\<close>

record state =
  managedWkldMap :: "(string \<times> replicateWkld) list"
  unmanagedWkldMap :: "(string \<times> replicateWkld) list"
  wkldImportCsvData :: "string list list"
  wkldDeleteCsvdata :: "string list list"
  deleteHrefMap :: "string \<rightharpoonup> string list"

definition hrefsOf :: "(string \<rightharpoonup> string list) \<Rightarrow> string \<Rightarrow> string list" where
  "hrefsOf m k = (case m k of None \<Rightarrow> [] | Some hs \<Rightarrow> hs)"

definition headerRow :: "string list \<Rightarrow> string list" where
  "headerRow labelKeys =
     [''source'', HeaderHostname, HeaderDescription] @ labelKeys
       @ [HeaderInterfaces, HeaderExternalDataSet, HeaderExternalDataReference]"

definition initState :: "string list \<Rightarrow> state" where
  "initState labelKeys =
     \<lparr>managedWkldMap = [], unmanagedWkldMap = [],
      wkldImportCsvData = [headerRow labelKeys],
      wkldDeleteCsvdata = [[''href'', ''pce_fqdn'', ''pce_name'']],
      deleteHrefMap = Map.empty\<rparr>"

text \<open>The row built at lines 169-170, 200-201 and 210-211: only the description differs.\<close>

definition newRow :: "string \<Rightarrow> PCE \<Rightarrow> Workload \<Rightarrow> string list \<Rightarrow> string list" where
  "newRow kind p w labelKeys =
     ([FriendlyName p, Hostname w, kind @ FQDN p] @ labelSlice w p labelKeys)
       @ [Join (Interfaces w) '';'', PtrToStr (ExternalDataSet w),
          PtrToStr (ExternalDataReference w)]"

section \<open>Phase 2: the unmanaged workloads\<close>

definition scheduleDelete :: "replicateWkld \<Rightarrow> state \<Rightarrow> state" where
  "scheduleDelete wkld st =
     st\<lparr>wkldDeleteCsvdata := wkldDeleteCsvdata st
            @ [[Href (workload wkld), FQDN (pce wkld), FriendlyName (pce wkld)]],
        deleteHrefMap := (deleteHrefMap st)(FQDN (pce wkld) \<mapsto>
            hrefsOf (deleteHrefMap st) (FQDN (pce wkld)) @ [Href (workload wkld)])\<rparr>"

text \<open>One iteration of the loop of lines 195-232.\<close>

definition reconcileOne :: "string list \<Rightarrow> state \<Rightarrow> replicateWkld \<Rightarrow> state" where
  "reconcileOne labelKeys st wkld =
     (let p = pce wkld; w = workload wkld; ref = PtrToStr (ExternalDataReference w) in
      if PtrToStr (ExternalDataSet w) \<noteq> ''wkld-replicate'' then
        (let w' = w\<lparr>ExternalDataSet := Some ''wkld-replicate'',
                    ExternalDataReference := Some (FQDN p @ ''-unmanaged-wkld-'' @ Href w)\<rparr>
         in st\<lparr>wkldImportCsvData := wkldImportCsvData st
                  @ [newRow ''unmanaged workload on '' p w' labelKeys]\<rparr>)
      else if FQDN p = SplitFirst ref ''-unmanaged-wkld-'' then
        st\<lparr>wkldImportCsvData := wkldImportCsvData st
              @ [newRow ''unmanaged workload on '' p w labelKeys]\<rparr>
      else if Contains ref ''-managed-wkld-'' then
        (if map_of (managedWkldMap st) (SplitFirst ref ''-managed-wkld-'' @ Hostname w) = None
         then scheduleDelete wkld st else st)
      else if Contains ref ''-unmanaged-wkld-'' then
        (if map_of (unmanagedWkldMap st) (SplitFirst ref ''-unmanaged-wkld-'' @ Hostname w) = None
         then scheduleDelete wkld st else st)
      else st)"

definition reconcile :: "string list \<Rightarrow> state \<Rightarrow> state" where
  "reconcile labelKeys st = foldl (reconcileOne labelKeys) st (map snd (unmanagedWkldMap st))"

section \<open>Effects\<close>

text \<open>
  What a run does to the outside is recorded as a trace of events, in the order of the calls:
  the calls made by \<^verbatim>\<open>wkldReplicate\<close> to its collaborators, the read of the operator's answer, and
  the messages of the gate and of the apply phase. The counters of lines 147-150 and the
  progress messages of the collection phase act on nothing and are left out.
  An instance is named in an event by its friendly name and its FQDN.
\<close>

datatype event =
    GetPCEbyNameCall string
  | GetLabelDimensionsCall string
  | GetWkldsCall string
  | WriteOutputCall string "string list list"
  | PromptRead
  | ImportWkldsFromCSVCall string string string
  | DeleteHrefCall string string string
  | LogInfo string

datatype 'a result = Fatal "event list" string | Ok "event list" 'a

text \<open>
  Modelled from the spec: \<^verbatim>\<open>utils.LogError\<close> is not among the sources given. The spec makes
  every configuration error and every collection error fatal, and all of them are reported
  through this function; the callers rely on it, using the result of a failed call in the
  next statement (lines 74-78, 109-116, 154-161). It ends the run with the message.
\<close>

definition LogError :: "event list \<Rightarrow> string \<Rightarrow> 'a result" where
  "LogError tr msg = Fatal tr msg"

definition andThen :: "'a result \<Rightarrow> (event list \<Rightarrow> 'a \<Rightarrow> 'b result) \<Rightarrow> 'b result" where
  "andThen r f = (case r of Fatal tr msg \<Rightarrow> Fatal tr msg | Ok tr x \<Rightarrow> f tr x)"

definition trace :: "'a result \<Rightarrow> event list" where
  "trace r = (case r of Fatal tr msg \<Rightarrow> tr | Ok tr x \<Rightarrow> tr)"

text \<open>
  The package-level variables set from the command line, and the collaborators of a run:
  one answer for each call. \<^verbatim>\<open>answer\<close> is what the operator types at the prompt: the bytes that
  \<^verbatim>\<open>fmt.Scanln\<close> finds on standard input. \<^verbatim>\<open>nowImport\<close> and \<^verbatim>\<open>nowDelete\<close> are
  \<^verbatim>\<open>time.Now().Format("20060102_150405")\<close> at lines 238 and 250. \<^verbatim>\<open>DeleteHref\<close> gives the status
  code of the response and the error, if any.
\<close>

record config =
  pceList :: string
  skipSources :: string
  outputFileName :: string
  updatePCE :: bool
  noPrompt :: bool

record world =
  GetPCEbyName :: "string \<Rightarrow> string + PCE"
  GetLabelDimensions :: "PCE \<Rightarrow> string + string list"
  GetWklds :: "PCE \<Rightarrow> string + Workload list"
  DeleteHref :: "PCE \<Rightarrow> string \<Rightarrow> int \<times> string option"
  nowImport :: string
  nowDelete :: string
  answer :: string

text \<open>\<^verbatim>\<open>%d\<close> of \<^verbatim>\<open>fmt.Sprintf\<close>.\<close>

function showNat :: "nat \<Rightarrow> string" where
  "showNat n = (if n < 10 then [char_of (48 + n)] else showNat (n div 10) @ [char_of (48 + n mod 10)])"
  by pat_completeness auto
termination
  by (relation "measure id") auto

declare showNat.simps [simp del]

definition showInt :: "int \<Rightarrow> string" where
  "showInt i = (if i < 0 then CHR ''-'' # showNat (nat (- i)) else showNat (nat i))"

section \<open>Reading the answer\<close>

text \<open>
  \<^verbatim>\<open>fmt.Scanln(&prompt)\<close> with its one string operand, as package \<^verbatim>\<open>fmt\<close> does it. White space
  is what the table of the package lists: the bytes 9 to 13 and 32, and the runes U+0085,
  U+00A0, U+1680, U+2000 to U+200A, U+2028, U+2029, U+202F, U+205F and U+3000, found here by
  their UTF-8 encodings (the first byte of each is no continuation byte, so it always starts a
  rune). \<^verbatim>\<open>spaceLen\<close> is the number of bytes of the white-space rune at the head of the input,
  0 when there is none.
\<close>

definition spaceLen :: "string \<Rightarrow> nat" where
  "spaceLen s =
     (case map of_char s :: nat list of
        [] \<Rightarrow> 0
      | a # r \<Rightarrow>
          if (9 \<le> a \<and> a \<le> 13) \<or> a = 32 then 1
          else (case r of
                  [] \<Rightarrow> 0
                | b # r' \<Rightarrow>
                    if a = 194 \<and> (b = 133 \<or> b = 160) then 2
                    else (case r' of
                            [] \<Rightarrow> 0
                          | c # r'' \<Rightarrow>
                              if (a = 225 \<and> b = 154 \<and> c = 128)
                                 \<or> (a = 226 \<and> b = 128
                                      \<and> ((128 \<le> c \<and> c \<le> 138) \<or> c = 168 \<or> c = 169 \<or> c = 175))
                                 \<or> (a = 226 \<and> b = 129 \<and> c = 159)
                                 \<or> (a = 227 \<and> b = 128 \<and> c = 128)
                              then 3 else 0)))"

text \<open>
  \<^verbatim>\<open>SkipSpace\<close> of the scanner: leading white space is passed over; at a newline the scan fails
  with "unexpected newline", and at the end of the input the check that follows fails with
  "unexpected EOF". Both are \<^const>\<open>None\<close>.
\<close>

function SkipSpace :: "string \<Rightarrow> string option" where
  "SkipSpace s =
     (if s = [] then None
      else if hd s = CHR 0x0A then None
      else if spaceLen s = 0 then Some s
      else SkipSpace (drop (spaceLen s) s))"
  by pat_completeness auto
termination
  by (relation "measure length") auto

declare SkipSpace.simps [simp del]

text \<open>The token of a string operand: the bytes up to the next white space or the end.\<close>

fun token :: "string \<Rightarrow> string" where
  "token [] = []"
| "token (c # cs) = (if spaceLen (c # cs) = 0 then c # token cs else [])"

text \<open>
  The value of \<^verbatim>\<open>prompt\<close> after line 271. The variable is empty before the call and stays so
  when the scan fails before the token. What follows the token on the line is read only to
  report "expected newline"; line 271 drops the error.
\<close>

definition Scanln :: "string \<Rightarrow> string" where
  "Scanln input = (case SkipSpace input of None \<Rightarrow> [] | Some s \<Rightarrow> token s)"

section \<open>Configuration and collection\<close>

text \<open>Lines 73-80.\<close>

fun getPces ::
  "world \<Rightarrow> string list \<Rightarrow> event list \<Rightarrow> PCE list \<Rightarrow> (string \<Rightarrow> bool)
     \<Rightarrow> (PCE list \<times> (string \<Rightarrow> bool)) result" where
  "getPces wd [] tr ps pceNameMap = Ok tr (ps, pceNameMap)"
| "getPces wd (n # ns) tr ps pceNameMap =
     (case GetPCEbyName wd n of
        Inl err \<Rightarrow> LogError (tr @ [GetPCEbyNameCall n]) err
      | Inr p \<Rightarrow> getPces wd ns (tr @ [GetPCEbyNameCall n]) (ps @ [p]) (pceNameMap(n := True)))"

text \<open>Lines 85-90; the message is the argument of \<^verbatim>\<open>utils.LogError\<close> as written at line 87.\<close>

fun checkSkips ::
  "string list \<Rightarrow> (string \<Rightarrow> bool) \<Rightarrow> event list \<Rightarrow> (string \<Rightarrow> bool)
     \<Rightarrow> (string \<Rightarrow> bool) result" where
  "checkSkips [] pceNameMap tr skipMap = Ok tr skipMap"
| "checkSkips (n # ns) pceNameMap tr skipMap =
     (if \<not> pceNameMap n
      then LogError tr ''%s is not in the pce list. skipped pces must also be in the pce list''
      else checkSkips ns pceNameMap tr (skipMap(n := True)))"

definition legacyPCE :: "PCE list \<Rightarrow> bool" where
  "legacyPCE ps =
     list_ex (\<lambda>p. VersionMajor p < 22 \<or> (VersionMajor p = 22 \<and> VersionMinor p < 5)) ps"

text \<open>
  Lines 107-120. \<^verbatim>\<open>pces[0]\<close> panics on an empty slice; \<^const>\<open>SplitComma\<close> never returns one, so
  the branch is not reached in a run.
\<close>

definition getLabelKeys :: "world \<Rightarrow> PCE list \<Rightarrow> event list \<Rightarrow> string list result" where
  "getLabelKeys wd ps tr =
     (if \<not> legacyPCE ps then
        (case ps of
           [] \<Rightarrow> Fatal tr ''panic: runtime error: index out of range [0] with length 0''
         | p0 # _ \<Rightarrow>
             (case GetLabelDimensions wd p0 of
                Inl err \<Rightarrow> LogError (tr @ [GetLabelDimensionsCall (FQDN p0)]) err
              | Inr ks \<Rightarrow> Ok (tr @ [GetLabelDimensionsCall (FQDN p0)]) ks))
      else Ok tr [''role'', ''app'', ''env'', ''loc''])"

text \<open>
  Lines 159-183 for one workload. The managed map takes the workload as fetched; the row is
  built from the copy stamped at lines 165-166.
\<close>

definition collectOne :: "PCE \<Rightarrow> string list \<Rightarrow> Workload \<Rightarrow> state \<Rightarrow> state" where
  "collectOne p labelKeys w st =
     (if Mode w \<noteq> ''unmanaged'' then
        (let w' = w\<lparr>ExternalDataSet := Some ''wkld-replicate'',
                    ExternalDataReference := Some (FQDN p @ ''-managed-wkld-'' @ Href w)\<rparr>
         in st\<lparr>managedWkldMap :=
                  AList.update (FQDN p @ Hostname w) \<lparr>pce = p, workload = w\<rparr> (managedWkldMap st),
               wkldImportCsvData := wkldImportCsvData st
                  @ [newRow ''managed ven on '' p w' labelKeys]\<rparr>)
      else st\<lparr>unmanagedWkldMap :=
                 AList.update (FQDN p @ Hostname w) \<lparr>pce = p, workload = w\<rparr> (unmanagedWkldMap st)\<rparr>)"

fun collectWklds ::
  "PCE \<Rightarrow> string list \<Rightarrow> Workload list \<Rightarrow> event list \<Rightarrow> state \<Rightarrow> state result" where
  "collectWklds p labelKeys [] tr st = Ok tr st"
| "collectWklds p labelKeys (w # ws) tr st =
     (if Hostname w = [] then
        LogError tr (FQDN p @ '' - href: '' @ Href w @ '' - name: '' @ Name w
          @ '' - wkld-replicate requires hostnames on all workloads. one option to quickly fix is to use wkld-export, edit the csv to have unique hostnames, and use wkld-import to apply.'')
      else collectWklds p labelKeys ws tr (collectOne p labelKeys w st))"

text \<open>Lines 128-192.\<close>

fun collect ::
  "world \<Rightarrow> (string \<Rightarrow> bool) \<Rightarrow> string list \<Rightarrow> PCE list \<Rightarrow> event list \<Rightarrow> state
     \<Rightarrow> state result" where
  "collect wd skipMap labelKeys [] tr st = Ok tr st"
| "collect wd skipMap labelKeys (p # ps) tr st =
     (if skipMap (FriendlyName p) then collect wd skipMap labelKeys ps tr st
      else
        (let st1 = st\<lparr>deleteHrefMap := (deleteHrefMap st)(FQDN p \<mapsto> [])\<rparr>;
             tr1 = tr @ [GetWkldsCall (FQDN p)]
         in case GetWklds wd p of
              Inl err \<Rightarrow> LogError tr1 err
            | Inr ws \<Rightarrow>
                (case collectWklds (p\<lparr>WorkloadsSlice := ws\<rparr>) labelKeys ws tr1 st1 of
                   Fatal t msg \<Rightarrow> Fatal t msg
                 | Ok t st2 \<Rightarrow> collect wd skipMap labelKeys ps t st2)))"

section \<open>The plan of a run\<close>

record plan =
  planPces :: "PCE list"
  planSkip :: "string \<Rightarrow> bool"
  planKeys :: "string list"
  planState :: state

text \<open>Lines 63-232: everything up to the two batches.\<close>

definition makePlan :: "config \<Rightarrow> world \<Rightarrow> plan result" where
  "makePlan cfg wd =
     andThen (getPces wd (SplitComma (RemoveSpaces (pceList cfg)))
                [LogInfo ''getting pces and labels...''] [] (\<lambda>_. False))
       (\<lambda>tr (ps, pceNameMap).
     andThen (if skipSources cfg \<noteq> []
              then checkSkips (SplitComma (RemoveSpaces (skipSources cfg))) pceNameMap tr
                     (\<lambda>_. False)
              else Ok tr (\<lambda>_. False))
       (\<lambda>tr skipMap.
     andThen (getLabelKeys wd ps tr)
       (\<lambda>tr labelKeys.
     andThen (collect wd skipMap labelKeys ps tr (initState labelKeys))
       (\<lambda>tr st.
     Ok tr \<lparr>planPces = ps, planSkip = skipMap, planKeys = labelKeys,
            planState = reconcile labelKeys st\<rparr>))))"

section \<open>Output, gate and apply\<close>

definition importFileName :: "config \<Rightarrow> world \<Rightarrow> string" where
  "importFileName cfg wd =
     (if outputFileName cfg = []
      then ''workloader-wkld-replicate-wkld-import-'' @ nowImport wd @ ''.csv''
      else ''wkld-import-'' @ outputFileName cfg)"

definition deleteFileName :: "config \<Rightarrow> world \<Rightarrow> string" where
  "deleteFileName cfg wd =
     (if outputFileName cfg = []
      then ''workloader-wkld-replicate-wkld-delete-'' @ nowDelete wd @ ''.csv''
      else ''wkld-delete-'' @ outputFileName cfg)"

text \<open>Lines 235-244 and 247-256; the first gives the file name used by the import.\<close>

definition exportImport :: "config \<Rightarrow> world \<Rightarrow> state \<Rightarrow> event list \<Rightarrow> event list \<times> string" where
  "exportImport cfg wd st tr =
     (if length (wkldImportCsvData st) > 1 then
        (tr @ [WriteOutputCall (importFileName cfg wd) (wkldImportCsvData st),
               LogInfo (showInt (int (length (wkldImportCsvData st)) - 1)
                        @ '' workloads to be imported'')],
         importFileName cfg wd)
      else (tr, []))"

definition exportDelete :: "config \<Rightarrow> world \<Rightarrow> state \<Rightarrow> event list \<Rightarrow> event list" where
  "exportDelete cfg wd st tr =
     (if length (wkldDeleteCsvdata st) > 1 then
        tr @ [WriteOutputCall (deleteFileName cfg wd) (wkldDeleteCsvdata st),
              LogInfo (showInt (int (length (wkldDeleteCsvdata st)) - 1)
                       @ '' workloads to be deleted'')]
      else tr)"

text \<open>Lines 297-304 for one instance: a failed call goes to \<^verbatim>\<open>utils.LogError\<close>.\<close>

fun deleteHrefs :: "world \<Rightarrow> PCE \<Rightarrow> string list \<Rightarrow> event list \<Rightarrow> unit result" where
  "deleteHrefs wd p [] tr = Ok tr ()"
| "deleteHrefs wd p (h # hs) tr =
     (case DeleteHref wd p h of
        (status, err) \<Rightarrow>
          (case err of
             Some e \<Rightarrow> LogError (tr @ [DeleteHrefCall (FriendlyName p) (FQDN p) h]) e
           | None \<Rightarrow>
               deleteHrefs wd p hs
                 (tr @ [DeleteHrefCall (FriendlyName p) (FQDN p) h,
                        LogInfo (h @ '' is in '' @ FQDN p @ '' delete - '' @ showInt status)])))"

text \<open>Lines 280-308.\<close>

fun applyActions ::
  "world \<Rightarrow> state \<Rightarrow> string \<Rightarrow> PCE list \<Rightarrow> event list \<Rightarrow> unit result" where
  "applyActions wd st wkldCsvFileName [] tr = Ok tr ()"
| "applyActions wd st wkldCsvFileName (p # ps) tr =
     (let tr1 = (if length (wkldImportCsvData st) > 1
                 then tr @ [LogInfo (''running wkld-import for '' @ FriendlyName p @ '' ('' @ FQDN p
                                     @ '') with '' @ wkldCsvFileName),
                            ImportWkldsFromCSVCall (FriendlyName p) (FQDN p) wkldCsvFileName]
                 else tr)
      in if length (wkldDeleteCsvdata st) > 1 then
           (case deleteHrefs wd p (hrefsOf (deleteHrefMap st) (FQDN p))
                   (tr1 @ [LogInfo (''running delete api for '' @ FriendlyName p @ '' ('' @ FQDN p
                                    @ '')'')]) of
              Fatal t msg \<Rightarrow> Fatal t msg
            | Ok t u \<Rightarrow> applyActions wd st wkldCsvFileName ps t)
         else applyActions wd st wkldCsvFileName ps tr1)"

text \<open>Lines 234-312.\<close>

definition finish :: "config \<Rightarrow> world \<Rightarrow> event list \<Rightarrow> plan \<Rightarrow> unit result" where
  "finish cfg wd tr pl =
     (case exportImport cfg wd (planState pl) tr of
        (tr1, wkldCsvFileName) \<Rightarrow>
          (let tr2 = exportDelete cfg wd (planState pl) tr1 in
           if \<not> updatePCE cfg then
             Ok (tr2 @ [LogInfo ''see workloader.log for more details. to do the import, run again using --update-pce flag.'']) ()
           else if updatePCE cfg \<and> \<not> noPrompt cfg \<and> ToLower (Scanln (answer wd)) \<noteq> ''yes'' then
             Ok (tr2 @ [PromptRead, LogInfo ''prompt denied'']) ()
           else
             applyActions wd (planState pl) wkldCsvFileName (planPces pl)
               (tr2 @ (if updatePCE cfg \<and> \<not> noPrompt cfg then [PromptRead] else []))))"

definition wkldReplicate :: "config \<Rightarrow> world \<Rightarrow> unit result" where
  "wkldReplicate cfg wd = andThen (makePlan cfg wd) (finish cfg wd)"

section \<open>Notions used in the statements\<close>


text \<open>The shape of the upsert batch: a header, then rows as wide as the header.\<close>

definition rowsOk :: "string list \<Rightarrow> state \<Rightarrow> bool" where
  "rowsOk ks st \<longleftrightarrow>
     wkldImportCsvData st \<noteq> [] \<and> hd (wkldImportCsvData st) = headerRow ks
       \<and> (\<forall>row \<in> set (tl (wkldImportCsvData st)). length row = 3 + length ks + 3)"

text \<open>A workload with the provenance of lines 198-199.\<close>

definition stamped :: "PCE \<Rightarrow> Workload \<Rightarrow> Workload" where
  "stamped p w = w\<lparr>ExternalDataSet := Some ''wkld-replicate'',
                   ExternalDataReference := Some (FQDN p @ ''-unmanaged-wkld-'' @ Href w)\<rparr>"

text \<open>
  The events that change a PCE, the files a trace writes, the events of the phases before
  the output, and the condition under which lines 261-277 let a run go on.
\<close>

definition mutation :: "event \<Rightarrow> bool" where
  "mutation e = (case e of ImportWkldsFromCSVCall n f c \<Rightarrow> True | DeleteHrefCall n f h \<Rightarrow> True
                 | _ \<Rightarrow> False)"

fun written :: "event list \<Rightarrow> (string \<times> string list list) list" where
  "written [] = []"
| "written (WriteOutputCall f rows # es) = (f, rows) # written es"
| "written (e # es) = written es"

definition quiet :: "event \<Rightarrow> bool" where
  "quiet e = (case e of GetPCEbyNameCall n \<Rightarrow> True | GetLabelDimensionsCall f \<Rightarrow> True
              | GetWkldsCall f \<Rightarrow> True | LogInfo m \<Rightarrow> True | _ \<Rightarrow> False)"

definition consent :: "config \<Rightarrow> world \<Rightarrow> bool" where
  "consent cfg wd \<longleftrightarrow> updatePCE cfg \<and> (noPrompt cfg \<or> ToLower (Scanln (answer wd)) = ''yes'')"

text \<open>The two events of a delete call that succeeds (lines 298-303).\<close>

definition deleteLog :: "world \<Rightarrow> PCE \<Rightarrow> string \<Rightarrow> event list" where
  "deleteLog wd p h =
     [DeleteHrefCall (FriendlyName p) (FQDN p) h,
      LogInfo (h @ '' is in '' @ FQDN p @ '' delete - '' @ showInt (fst (DeleteHref wd p h)))]"

text \<open>
  An entry of the unmanaged map that comes from an instance of the list that is not excluded
  as a source, and the invariant of the delete batch: every row and every non-empty list of
  hrefs belongs to the instance of such an entry.
\<close>

definition sourceOf :: "(string \<Rightarrow> bool) \<Rightarrow> PCE list \<Rightarrow> replicateWkld \<Rightarrow> bool" where
  "sourceOf skipMap ps wk \<longleftrightarrow>
     (\<exists>q \<in> set ps. \<not> skipMap (FriendlyName q) \<and> FriendlyName (pce wk) = FriendlyName q
        \<and> FQDN (pce wk) = FQDN q)"

definition delInv :: "(replicateWkld \<Rightarrow> bool) \<Rightarrow> state \<Rightarrow> bool" where
  "delInv G st \<longleftrightarrow>
     (\<forall>row \<in> set (tl (wkldDeleteCsvdata st)).
        \<exists>wk. G wk \<and> row = [Href (workload wk), FQDN (pce wk), FriendlyName (pce wk)])
     \<and> (\<forall>f. hrefsOf (deleteHrefMap st) f \<noteq> [] \<longrightarrow> (\<exists>wk. G wk \<and> f = FQDN (pce wk)))
     \<and> wkldDeleteCsvdata st \<noteq> []"

section \<open>Example instances\<close>

text \<open>
  Two instances \<^verbatim>\<open>A\<close> and \<^verbatim>\<open>B\<close>. \<^verbatim>\<open>A\<close> has a managed workload \<^verbatim>\<open>h1\<close> with the label
  \<^verbatim>\<open>role=web\<close> and an unmanaged workload \<^verbatim>\<open>h2\<close> that was never replicated; \<^verbatim>\<open>B\<close> has a proxy
  of \<^verbatim>\<open>h1\<close> and proxies of managed workloads that \<^verbatim>\<open>A\<close> no longer has.
\<close>

definition exLabelMap :: "string \<rightharpoonup> Label" where
  "exLabelMap = [''/labels/1'' \<mapsto> \<lparr>LabelHref = ''/labels/1'', Key = ''role'', Value = ''web''\<rparr>]"

definition exA :: PCE where
  "exA = \<lparr>FriendlyName = ''A'', FQDN = ''a.example'', VersionMajor = 23, VersionMinor = 2,
          LabelMap = exLabelMap, WorkloadsSlice = []\<rparr>"

definition exB :: PCE where
  "exB = \<lparr>FriendlyName = ''B'', FQDN = ''b.example'', VersionMajor = 23, VersionMinor = 2,
          LabelMap = Map.empty, WorkloadsSlice = []\<rparr>"

definition exManaged :: Workload where
  "exManaged = \<lparr>Href = ''/w/1'', Hostname = ''h1'', Name = ''n1'', Mode = ''idle'',
                Labels = [''/labels/1''], Interfaces = [''eth0:10.0.0.1''],
                ExternalDataSet = None, ExternalDataReference = None\<rparr>"

definition exOrganic :: Workload where
  "exOrganic = \<lparr>Href = ''/w/2'', Hostname = ''h2'', Name = ''n2'', Mode = ''unmanaged'',
                Labels = [], Interfaces = [],
                ExternalDataSet = None, ExternalDataReference = None\<rparr>"

definition exProxy :: Workload where
  "exProxy = \<lparr>Href = ''/w/3'', Hostname = ''h1'', Name = ''n3'', Mode = ''unmanaged'',
              Labels = [], Interfaces = [],
              ExternalDataSet = Some ''wkld-replicate'',
              ExternalDataReference = Some ''a.example-managed-wkld-/w/1''\<rparr>"

definition exStale :: Workload where
  "exStale = \<lparr>Href = ''/w/4'', Hostname = ''h7'', Name = ''n4'', Mode = ''unmanaged'',
              Labels = [], Interfaces = [],
              ExternalDataSet = Some ''wkld-replicate'',
              ExternalDataReference = Some ''a.example-managed-wkld-/w/7''\<rparr>"

definition exStale2 :: Workload where
  "exStale2 = \<lparr>Href = ''/w/5'', Hostname = ''h8'', Name = ''n5'', Mode = ''unmanaged'',
              Labels = [], Interfaces = [],
              ExternalDataSet = Some ''wkld-replicate'',
              ExternalDataReference = Some ''a.example-managed-wkld-/w/8''\<rparr>"

definition exState :: state where
  "exState =
     \<lparr>managedWkldMap = [(''a.exampleh1'', \<lparr>pce = exA, workload = exManaged\<rparr>)],
      unmanagedWkldMap =
        [(''a.exampleh2'', \<lparr>pce = exA, workload = exOrganic\<rparr>),
         (''b.exampleh1'', \<lparr>pce = exB, workload = exProxy\<rparr>),
         (''b.exampleh7'', \<lparr>pce = exB, workload = exStale\<rparr>)],
      wkldImportCsvData = [headerRow [''role'']],
      wkldDeleteCsvdata = [[''href'', ''pce_fqdn'', ''pce_name'']],
      deleteHrefMap = [''a.example'' \<mapsto> [], ''b.example'' \<mapsto> []]\<rparr>"

definition exWorld :: world where
  "exWorld =
     \<lparr>GetPCEbyName = (\<lambda>n. if n = ''A'' then Inr exA else if n = ''B'' then Inr exB
                           else Inl (''could not retrieve '' @ n @ '' PCE information'')),
      GetLabelDimensions = (\<lambda>p. Inr [''role'']),
      GetWklds = (\<lambda>p. if FQDN p = ''a.example'' then Inr [exManaged, exOrganic]
                       else Inr [exProxy, exStale]),
      DeleteHref = (\<lambda>p h. (204, None)),
      nowImport = ''20261101_120000'', nowDelete = ''20261101_120001'', answer = ''Yes''\<rparr>"

definition exConfig :: config where
  "exConfig = \<lparr>pceList = ''A, B'', skipSources = [], outputFileName = ''run.csv'',
               updatePCE = True, noPrompt = False\<rparr>"

definition exDryRun :: config where
  "exDryRun = exConfig\<lparr>updatePCE := False\<rparr>"

definition exCleanWorld :: world where
  "exCleanWorld =
     exWorld\<lparr>GetWklds := (\<lambda>p. if FQDN p = ''a.example'' then Inr [exManaged]
                              else Inr [exProxy])\<rparr>"

definition exSkipConfig :: config where
  "exSkipConfig = exConfig\<lparr>skipSources := ''Z9''\<rparr>"

definition exFailConfig :: config where
  "exFailConfig = exConfig\<lparr>pceList := ''B,A'', noPrompt := True\<rparr>"

definition exFailWorld :: world where
  "exFailWorld =
     exWorld\<lparr>GetWklds := (\<lambda>p. if FQDN p = ''a.example'' then Inr [exManaged]
                              else Inr [exStale, exStale2]),
             DeleteHref := (\<lambda>p h. if h = ''/w/4'' then (500, Some ''delete failed'')
                                   else (204, None))\<rparr>"

definition exStaleA :: Workload where
  "exStaleA = \<lparr>Href = ''/w/6'', Hostname = ''h9'', Name = ''n6'', Mode = ''unmanaged'',
               Labels = [], Interfaces = [],
               ExternalDataSet = Some ''wkld-replicate'',
               ExternalDataReference = Some ''c.example-managed-wkld-/w/9''\<rparr>"

definition exSkipBConfig :: config where
  "exSkipBConfig = exConfig\<lparr>skipSources := ''B''\<rparr>"

definition exSkipBWorld :: world where
  "exSkipBWorld =
     exWorld\<lparr>GetWklds := (\<lambda>p. if FQDN p = ''a.example'' then Inr [exManaged, exStaleA]
                              else Inr [exStale])\<rparr>"

definition exA2 :: PCE where
  "exA2 = exA\<lparr>FriendlyName := ''A2''\<rparr>"

definition exAliasConfig :: config where
  "exAliasConfig = \<lparr>pceList = ''A,A2'', skipSources = ''A2'', outputFileName = ''run.csv'',
                    updatePCE = True, noPrompt = True\<rparr>"

definition exAliasWorld :: world where
  "exAliasWorld =
     exWorld\<lparr>GetPCEbyName := (\<lambda>n. if n = ''A'' then Inr exA else if n = ''A2'' then Inr exA2
                                   else Inl (''could not retrieve '' @ n @ '' PCE information'')),
             GetWklds := (\<lambda>p. Inr [exManaged, exStaleA])\<rparr>"

definition exChattyWorld :: world where
  "exChattyWorld = exWorld\<lparr>answer := ''YES please''\<rparr>"

section \<open>The instances after a run\<close>

text \<open>
  Modelled from the spec: \<^verbatim>\<open>wkldimport.ImportWkldsFromCSV\<close> is not among the sources. The spec gives
  its contract: a row is matched to the workloads of the instance by hostname; when none has
  the hostname, an unmanaged workload is created that carries the hostname, the interfaces and
  the provenance of the row; when one has it, its labels are updated. What the PCE decides
  (the href of a created workload, the labels that the label columns resolve to) is a
  parameter of the model.
\<close>

record pceSide =
  newHref :: "PCE \<Rightarrow> Workload list \<Rightarrow> string \<Rightarrow> string"
  labelHrefs :: "PCE \<Rightarrow> string list \<Rightarrow> string list"

definition created :: "pceSide \<Rightarrow> PCE \<Rightarrow> nat \<Rightarrow> Workload list \<Rightarrow> string list \<Rightarrow> Workload" where
  "created side q n ws row =
     \<lparr>Href = newHref side q ws (row ! 1), Hostname = row ! 1, Name = row ! 1,
      Mode = ''unmanaged'', Labels = labelHrefs side q (take n (drop 3 row)),
      Interfaces = [row ! (3 + n)],
      ExternalDataSet = Some (row ! (4 + n)), ExternalDataReference = Some (row ! (5 + n))\<rparr>"

definition importRow :: "pceSide \<Rightarrow> PCE \<Rightarrow> nat \<Rightarrow> Workload list \<Rightarrow> string list \<Rightarrow> Workload list" where
  "importRow side q n ws row =
     (if list_ex (\<lambda>w. Hostname w = row ! 1) ws
      then map (\<lambda>w. if Hostname w = row ! 1
                      then w\<lparr>Labels := labelHrefs side q (take n (drop 3 row))\<rparr> else w) ws
      else ws @ [created side q n ws row])"

definition ImportWkldsFromCSV ::
  "pceSide \<Rightarrow> PCE \<Rightarrow> nat \<Rightarrow> string list list \<Rightarrow> Workload list \<Rightarrow> Workload list" where
  "ImportWkldsFromCSV side q n csv ws = foldl (importRow side q n) ws (tl csv)"

text \<open>
  Modelled from the spec: the delete call of the client library (\<^verbatim>\<open>DeleteWorkload(pce, href)\<close> in
  the spec) takes the workload with the href away from the instance.
\<close>

definition removeHrefs :: "string list \<Rightarrow> Workload list \<Rightarrow> Workload list" where
  "removeHrefs hs ws = filter (\<lambda>w. Href w \<notin> set hs) ws"

text \<open>
  The workloads of an instance after the apply phase of a run (lines 280-308): the import of the
  upsert batch when it has rows, then the deletes listed for the address of the instance. Only
  the instances of the list are read by a run, so the next state is given for every instance
  alike.
\<close>

definition applied :: "pceSide \<Rightarrow> plan \<Rightarrow> PCE \<Rightarrow> Workload list \<Rightarrow> Workload list" where
  "applied side pl q ws =
     (let st = planState pl;
          ws1 = (if 1 < length (wkldImportCsvData st)
                 then ImportWkldsFromCSV side q (length (planKeys pl)) (wkldImportCsvData st) ws
                 else ws)
      in if 1 < length (wkldDeleteCsvdata st)
         then removeHrefs (hrefsOf (deleteHrefMap st) (FQDN q)) ws1 else ws1)"

definition nextWorld :: "pceSide \<Rightarrow> plan \<Rightarrow> world \<Rightarrow> world" where
  "nextWorld side pl wd =
     wd\<lparr>GetWklds := (\<lambda>q. case GetWklds wd q of
                              Inl err \<Rightarrow> Inl err
                            | Inr ws \<Rightarrow> Inr (applied side pl q ws))\<rparr>"

text \<open>The plan of a second run, made in the state that the first run leaves.\<close>

definition secondPlan :: "pceSide \<Rightarrow> config \<Rightarrow> world \<Rightarrow> plan result" where
  "secondPlan side cfg wd =
     (case makePlan cfg wd of
        Fatal tr msg \<Rightarrow> Fatal tr msg
      | Ok tr pl \<Rightarrow> makePlan cfg (nextWorld side pl wd))"

definition deleteBatch :: "plan result \<Rightarrow> string list list" where
  "deleteBatch r = (case r of Fatal tr msg \<Rightarrow> [] | Ok tr pl \<Rightarrow> wkldDeleteCsvdata (planState pl))"

text \<open>
  Instances for the second run: a chain of proxies (\<^verbatim>\<open>B\<close> mirrors a workload of \<^verbatim>\<open>C\<close> that
  mirrors a workload of \<^verbatim>\<open>D\<close>, which is gone), two proxies with one hostname, and an address
  that contains a delimiter.
\<close>

definition exSide :: pceSide where
  "exSide = \<lparr>newHref = (\<lambda>q ws h. ''/w/new-'' @ h), labelHrefs = (\<lambda>q vs. [])\<rparr>"

definition exC :: PCE where
  "exC = \<lparr>FriendlyName = ''C'', FQDN = ''c.example'', VersionMajor = 23, VersionMinor = 2,
          LabelMap = Map.empty, WorkloadsSlice = []\<rparr>"

definition exChainB :: Workload where
  "exChainB = \<lparr>Href = ''/w/b'', Hostname = ''h'', Name = ''nb'', Mode = ''unmanaged'',
              Labels = [], Interfaces = [],
              ExternalDataSet = Some ''wkld-replicate'',
              ExternalDataReference = Some ''c.example-unmanaged-wkld-/w/c''\<rparr>"

definition exChainC :: Workload where
  "exChainC = \<lparr>Href = ''/w/c'', Hostname = ''h'', Name = ''nc'', Mode = ''unmanaged'',
              Labels = [], Interfaces = [],
              ExternalDataSet = Some ''wkld-replicate'',
              ExternalDataReference = Some ''d.example-unmanaged-wkld-/w/d''\<rparr>"

definition exChainConfig :: config where
  "exChainConfig = \<lparr>pceList = ''B,C'', skipSources = [], outputFileName = ''run.csv'',
                    updatePCE = True, noPrompt = True\<rparr>"

definition exChainWorld :: world where
  "exChainWorld =
     exWorld\<lparr>GetPCEbyName := (\<lambda>n. if n = ''B'' then Inr exB else if n = ''C'' then Inr exC
                                   else Inl (''could not retrieve '' @ n @ '' PCE information'')),
             GetWklds := (\<lambda>p. if FQDN p = ''b.example'' then Inr [exChainB] else Inr [exChainC])\<rparr>"

definition exTwin :: Workload where
  "exTwin = exStale\<lparr>Href := ''/w/4b'', Name := ''n4b''\<rparr>"

definition exTwinWorld :: world where
  "exTwinWorld =
     exWorld\<lparr>GetWklds := (\<lambda>p. if FQDN p = ''a.example'' then Inr [exManaged]
                              else Inr [exStale, exTwin])\<rparr>"

definition exOddA :: PCE where
  "exOddA = exA\<lparr>FQDN := ''a-managed-wkld-x''\<rparr>"

definition exOddWorld :: world where
  "exOddWorld =
     exWorld\<lparr>GetPCEbyName := (\<lambda>n. if n = ''A'' then Inr exOddA else if n = ''B'' then Inr exB
                                   else Inl (''could not retrieve '' @ n @ '' PCE information'')),
             GetWklds := (\<lambda>p. if FQDN p = ''b.example'' then Inr [] else Inr [exManaged])\<rparr>"

text \<open>
  The workloads that a run collects, the entries and rows it makes of them, a Go map as a
  sequence of insertions, and the test of lines 209-231 for scheduling a delete.
\<close>

definition wkldsOf :: "world \<Rightarrow> PCE \<Rightarrow> Workload list" where
  "wkldsOf wd q = (case GetWklds wd q of Inl err \<Rightarrow> [] | Inr ws \<Rightarrow> ws)"

definition sourcesOf :: "(string \<Rightarrow> bool) \<Rightarrow> PCE list \<Rightarrow> PCE list" where
  "sourcesOf skipMap ps = filter (\<lambda>q. \<not> skipMap (FriendlyName q)) ps"

definition unmanagedOf :: "world \<Rightarrow> PCE \<Rightarrow> Workload list" where
  "unmanagedOf wd q = filter (\<lambda>w. Mode w = ''unmanaged'') (wkldsOf wd q)"

definition managedOf :: "world \<Rightarrow> PCE \<Rightarrow> Workload list" where
  "managedOf wd q = filter (\<lambda>w. Mode w \<noteq> ''unmanaged'') (wkldsOf wd q)"

definition entryOf :: "PCE \<Rightarrow> Workload list \<Rightarrow> Workload \<Rightarrow> string \<times> replicateWkld" where
  "entryOf q ws w = (FQDN q @ Hostname w, \<lparr>pce = q\<lparr>WorkloadsSlice := ws\<rparr>, workload = w\<rparr>)"

definition managedRow :: "string list \<Rightarrow> PCE \<Rightarrow> Workload list \<Rightarrow> Workload \<Rightarrow> string list" where
  "managedRow ks q ws w =
     newRow ''managed ven on '' (q\<lparr>WorkloadsSlice := ws\<rparr>)
       (w\<lparr>ExternalDataSet := Some ''wkld-replicate'',
          ExternalDataReference := Some (FQDN q @ ''-managed-wkld-'' @ Href w)\<rparr>) ks"

fun inserts :: "('k \<times> 'v) list \<Rightarrow> ('k \<times> 'v) list \<Rightarrow> ('k \<times> 'v) list" where
  "inserts al [] = al"
| "inserts al (kv # kvs) = inserts (AList.update (fst kv) (snd kv) al) kvs"

definition staleIn :: "state \<Rightarrow> string \<Rightarrow> Workload \<Rightarrow> bool" where
  "staleIn st fqdn w =
     (let ref = PtrToStr (ExternalDataReference w) in
      PtrToStr (ExternalDataSet w) = ''wkld-replicate''
      \<and> fqdn \<noteq> SplitFirst ref ''-unmanaged-wkld-''
      \<and> (if Contains ref ''-managed-wkld-''
         then map_of (managedWkldMap st) (SplitFirst ref ''-managed-wkld-'' @ Hostname w) = None
         else Contains ref ''-unmanaged-wkld-''
            \<and> map_of (unmanagedWkldMap st) (SplitFirst ref ''-unmanaged-wkld-'' @ Hostname w) = None))"

definition upsertRow :: "string list \<Rightarrow> replicateWkld \<Rightarrow> string list option" where
  "upsertRow ks wk =
     (if PtrToStr (ExternalDataSet (workload wk)) \<noteq> ''wkld-replicate''
      then Some (newRow ''unmanaged workload on '' (pce wk) (stamped (pce wk) (workload wk)) ks)
      else if FQDN (pce wk)
                = SplitFirst (PtrToStr (ExternalDataReference (workload wk))) ''-unmanaged-wkld-''
      then Some (newRow ''unmanaged workload on '' (pce wk) (workload wk) ks)
      else None)"

text \<open>What the import keeps of a workload, and what a created workload has of its row.\<close>

definition sameBut :: "Workload \<Rightarrow> Workload \<Rightarrow> bool" where
  "sameBut w w2 \<longleftrightarrow> (\<exists>l. w2 = w\<lparr>Labels := l\<rparr>)"

definition fromRow :: "nat \<Rightarrow> string list \<Rightarrow> Workload \<Rightarrow> bool" where
  "fromRow n row w \<longleftrightarrow>
     Hostname w = row ! 1 \<and> Mode w = ''unmanaged''
     \<and> ExternalDataSet w = Some (row ! (4 + n)) \<and> ExternalDataReference w = Some (row ! (5 + n))"

definition deleteRow :: "replicateWkld \<Rightarrow> string list" where
  "deleteRow wk = [Href (workload wk), FQDN (pce wk), FriendlyName (pce wk)]"

text \<open>
  The conditions under which a second run deletes nothing. \<^verbatim>\<open>tidy\<close>: the source instances have
  distinct addresses, hrefs are unique within an instance, no two collected unmanaged workloads
  have the same map key, and the provenance strings split at the delimiters where the address
  ends. \<^verbatim>\<open>noChains\<close>: no workload that the first run deletes is named, by address and hostname,
  in the \<^verbatim>\<open>-unmanaged-wkld-\<close> reference of a collected workload.
\<close>

definition planSources :: "plan \<Rightarrow> PCE list" where
  "planSources pl = sourcesOf (planSkip pl) (planPces pl)"

definition tidy :: "world \<Rightarrow> plan \<Rightarrow> bool" where
  "tidy wd pl \<longleftrightarrow>
     distinct (map FQDN (planSources pl))
     \<and> list_all (\<lambda>q. distinct (map Href (wkldsOf wd q))) (planSources pl)
     \<and> distinct (concat (map (\<lambda>q. map (\<lambda>w. FQDN q @ Hostname w) (unmanagedOf wd q))
                           (planSources pl)))
     \<and> list_all (\<lambda>q.
          SplitFirst (FQDN q @ ''-managed-wkld-'') ''-managed-wkld-'' = FQDN q
          \<and> SplitFirst (FQDN q @ ''-unmanaged-wkld-'') ''-unmanaged-wkld-'' = FQDN q
          \<and> list_all (\<lambda>u.
                if PtrToStr (ExternalDataSet u) \<noteq> ''wkld-replicate''
                then \<not> Contains (FQDN q @ ''-unmanaged-wkld-'' @ Href u) ''-managed-wkld-''
                else FQDN q = SplitFirst (PtrToStr (ExternalDataReference u)) ''-unmanaged-wkld-''
                     \<longrightarrow> \<not> Contains (PtrToStr (ExternalDataReference u)) ''-managed-wkld-'')
              (unmanagedOf wd q))
         (planSources pl)"

definition noChains :: "world \<Rightarrow> plan \<Rightarrow> bool" where
  "noChains wd pl \<longleftrightarrow>
     list_all (\<lambda>q. list_all (\<lambda>d.
        staleIn (planState pl) (FQDN q) d \<longrightarrow>
        list_all (\<lambda>q'. list_all (\<lambda>w.
           Contains (PtrToStr (ExternalDataReference w)) ''-unmanaged-wkld-'' \<longrightarrow>
           SplitFirst (PtrToStr (ExternalDataReference w)) ''-unmanaged-wkld-'' @ Hostname w
             \<noteq> FQDN q @ Hostname d) (unmanagedOf wd q')) (planSources pl))
       (unmanagedOf wd q)) (planSources pl)"

section \<open>The rules of the second phase in a run\<close>

text \<open>
  The workloads that a run collects are the unmanaged workloads \<^term>\<open>unmanagedOf wd q\<close> of the
  instances \<^term>\<open>planSources pl\<close> that are not excluded as a source. The unmanaged map keeps one
  of them for each key (line 177 overwrites), and the loop of lines 195-232 ranges over what
  the map keeps. \<^verbatim>\<open>distinctKeys\<close>: no two collected unmanaged workloads have the same key, the
  address of the instance followed by the hostname. \<^verbatim>\<open>distinctHrefs\<close>: no two of them have the
  same address and href.
\<close>

definition distinctKeys :: "world \<Rightarrow> plan \<Rightarrow> bool" where
  "distinctKeys wd pl \<longleftrightarrow>
     distinct (concat (map (\<lambda>q. map (\<lambda>w. FQDN q @ Hostname w) (unmanagedOf wd q))
                        (planSources pl)))"

definition distinctHrefs :: "world \<Rightarrow> plan \<Rightarrow> bool" where
  "distinctHrefs wd pl \<longleftrightarrow>
     distinct (concat (map (\<lambda>q. map (\<lambda>w. (FQDN q, Href w)) (unmanagedOf wd q))
                        (planSources pl)))"

text \<open>
  The rows that the batches hold for an unmanaged workload of an instance. An upsert row names
  it by its hostname (column 1) and, in the description (column 2), as an unmanaged workload on
  the address of the instance; a delete row names it by its href and the address.
\<close>

definition upsertsFor :: "PCE \<Rightarrow> Workload \<Rightarrow> state \<Rightarrow> string list list" where
  "upsertsFor q w st =
     filter (\<lambda>r. r ! 1 = Hostname w \<and> r ! 2 = ''unmanaged workload on '' @ FQDN q)
       (tl (wkldImportCsvData st))"

definition deletesFor :: "PCE \<Rightarrow> Workload \<Rightarrow> state \<Rightarrow> string list list" where
  "deletesFor q w st =
     filter (\<lambda>r. r ! 0 = Href w \<and> r ! 1 = FQDN q) (tl (wkldDeleteCsvdata st))"

text \<open>The upsert batch, the keys of the managed map and the hrefs to delete of a plan.\<close>

definition upsertBatch :: "plan result \<Rightarrow> string list list" where
  "upsertBatch r = (case r of Fatal tr msg \<Rightarrow> [] | Ok tr pl \<Rightarrow> wkldImportCsvData (planState pl))"

definition managedKeys :: "plan result \<Rightarrow> string list" where
  "managedKeys r =
     (case r of Fatal tr msg \<Rightarrow> [] | Ok tr pl \<Rightarrow> map fst (managedWkldMap (planState pl)))"

definition hrefsToDelete :: "plan result \<Rightarrow> string \<Rightarrow> string list" where
  "hrefsToDelete r fqdn =
     (case r of Fatal tr msg \<Rightarrow> [] | Ok tr pl \<Rightarrow> hrefsOf (deleteHrefMap (planState pl)) fqdn)"

text \<open>Two unmanaged workloads of \<^verbatim>\<open>A\<close> with one hostname, neither replicated before.\<close>

definition exOrganicTwin :: Workload where
  "exOrganicTwin = exOrganic\<lparr>Href := ''/w/2b'', Name := ''n2b''\<rparr>"

definition exDupWorld :: world where
  "exDupWorld =
     exWorld\<lparr>GetWklds := (\<lambda>p. if FQDN p = ''a.example''
                              then Inr [exManaged, exOrganic, exOrganicTwin]
                              else Inr [exProxy])\<rparr>"

section \<open>Evaluating the examples\<close>

lemmas ex_defs = exLabelMap_def exA_def exB_def exManaged_def exOrganic_def exProxy_def exStale_def
  exStale2_def exWorld_def exConfig_def

lemmas more_defs = exDryRun_def exCleanWorld_def exSkipConfig_def exFailConfig_def exFailWorld_def

lemmas run_defs = wkldReplicate_def makePlan_def andThen_def RemoveSpaces_def
    LogError_def getLabelKeys_def legacyPCE_def initState_def collectOne_def reconcile_def reconcileOne_def scheduleDelete_def
    finish_def exportImport_def exportDelete_def hrefsOf_def PtrToStr_def newRow_def headerRow_def Let_def labelAt_def
    importFileName_def deleteFileName_def

lemma Scanln_Yes: "ToLower (Scanln ''Yes'') = ''yes''"
  by code_simp

lemma showInt_ex: "showInt 1 = ''1''" "showInt 2 = ''2''" "showInt 204 = ''204''"
  by code_simp+


section \<open>The rows of the upsert batch\<close>


lemma GetLabelByKey_Key:
  "Key (GetLabelByKey hs k m) = k \<or> Key (GetLabelByKey hs k m) = []"
  by (induction hs) (auto simp: emptyLabel_def)

lemma labelSlice_length [simp]: "length (labelSlice w p ks) = length ks"
  by (induction ks) (simp_all add: Let_def)


lemma newRow_length [simp]: "length (newRow kind p w ks) = 3 + length ks + 3"
  by (simp add: newRow_def)


lemma newRow_tail:
  "newRow kind p w ks ! (4 + length ks) = PtrToStr (ExternalDataSet w)"
  "newRow kind p w ks ! (5 + length ks) = PtrToStr (ExternalDataReference w)"
  by (simp_all add: newRow_def nth_append)

lemma newRow_head:
  "newRow kind p w ks ! 0 = FriendlyName p"
  "newRow kind p w ks ! 1 = Hostname w"
  "newRow kind p w ks ! 2 = kind @ FQDN p"
  by (simp_all add: newRow_def)



section \<open>The shape of the upsert batch\<close>

lemma rowsOk_append:
  "rowsOk ks st \<Longrightarrow> length row = 3 + length ks + 3 \<Longrightarrow>
   rowsOk ks (st\<lparr>wkldImportCsvData := wkldImportCsvData st @ [row]\<rparr>)"
  by (auto simp: rowsOk_def)

lemma rowsOk_init: "rowsOk ks (initState ks)"
  by (simp add: rowsOk_def initState_def)

lemma rowsOk_collectOne: "rowsOk ks st \<Longrightarrow> rowsOk ks (collectOne p ks w st)"
  by (auto simp: rowsOk_def collectOne_def Let_def)

lemma rowsOk_collectWklds:
  "rowsOk ks st \<Longrightarrow> collectWklds p ks ws tr st = Ok tr' st' \<Longrightarrow> rowsOk ks st'"
proof (induction ws arbitrary: st)
  case Nil
  then show ?case by simp
next
  case (Cons w ws)
  from Cons.prems(2) have "Hostname w \<noteq> []"
    and "collectWklds p ks ws tr (collectOne p ks w st) = Ok tr' st'"
    by (auto simp: LogError_def split: if_splits)
  then show ?case
    using Cons.IH rowsOk_collectOne [OF Cons.prems(1)] by blast
qed

lemma collectWklds_trace:
  "collectWklds p ks ws tr st = Ok tr' st' \<Longrightarrow> tr' = tr"
  by (induction ws arbitrary: st) (auto simp: LogError_def split: if_splits)

lemma rowsOk_collect:
  "rowsOk ks st \<Longrightarrow> collect wd skipMap ks ps tr st = Ok tr' st' \<Longrightarrow> rowsOk ks st'"
proof (induction ps arbitrary: st tr)
  case Nil
  then show ?case by simp
next
  case (Cons p ps)
  show ?case
  proof (cases "skipMap (FriendlyName p)")
    case True
    with Cons show ?thesis by simp
  next
    case False
    let ?st1 = "st\<lparr>deleteHrefMap := (deleteHrefMap st)(FQDN p \<mapsto> [])\<rparr>"
    have ok1: "rowsOk ks ?st1" using Cons.prems(1) by (simp add: rowsOk_def)
    from Cons.prems(2) False obtain ws t st2 where
      "collectWklds (p\<lparr>WorkloadsSlice := ws\<rparr>) ks ws (tr @ [GetWkldsCall (FQDN p)]) ?st1 = Ok t st2"
      and rest: "collect wd skipMap ks ps t st2 = Ok tr' st'"
      by (auto simp: Let_def LogError_def split: sum.splits result.splits)
    then have "rowsOk ks st2" using ok1 rowsOk_collectWklds by blast
    with rest show ?thesis using Cons.IH by blast
  qed
qed

lemma rowsOk_reconcileOne: "rowsOk ks st \<Longrightarrow> rowsOk ks (reconcileOne ks st wk)"
  by (auto simp: rowsOk_def reconcileOne_def scheduleDelete_def Let_def)

lemma rowsOk_foldl:
  "rowsOk ks st \<Longrightarrow> rowsOk ks (foldl (reconcileOne ks) st xs)"
  by (induction xs arbitrary: st) (simp_all add: rowsOk_reconcileOne)

lemma rowsOk_reconcile: "rowsOk ks st \<Longrightarrow> rowsOk ks (reconcile ks st)"
  by (simp add: reconcile_def rowsOk_foldl)

lemma andThen_Ok:
  "andThen r f = Ok tr x \<Longrightarrow> \<exists>tr0 y. r = Ok tr0 y \<and> f tr0 y = Ok tr x"
  by (cases r) (simp_all add: andThen_def)

lemma makePlan_Ok:
  assumes "makePlan cfg wd = Ok tr pl"
  shows "\<exists>tr1 tr2 tr3 pceNameMap st.
           getPces wd (SplitComma (RemoveSpaces (pceList cfg)))
             [LogInfo ''getting pces and labels...''] [] (\<lambda>_. False) = Ok tr1 (planPces pl, pceNameMap)
         \<and> (if skipSources cfg \<noteq> []
              then checkSkips (SplitComma (RemoveSpaces (skipSources cfg))) pceNameMap tr1
                     (\<lambda>_. False)
              else Ok tr1 (\<lambda>_. False)) = Ok tr2 (planSkip pl)
         \<and> getLabelKeys wd (planPces pl) tr2 = Ok tr3 (planKeys pl)
         \<and> collect wd (planSkip pl) (planKeys pl) (planPces pl) tr3 (initState (planKeys pl)) = Ok tr st
         \<and> planState pl = reconcile (planKeys pl) st"
proof -
  from assms have "andThen (getPces wd (SplitComma (RemoveSpaces (pceList cfg)))
                [LogInfo ''getting pces and labels...''] [] (\<lambda>_. False))
       (\<lambda>tr (ps, pceNameMap).
     andThen (if skipSources cfg \<noteq> []
              then checkSkips (SplitComma (RemoveSpaces (skipSources cfg))) pceNameMap tr
                     (\<lambda>_. False)
              else Ok tr (\<lambda>_. False))
       (\<lambda>tr skipMap.
     andThen (getLabelKeys wd ps tr)
       (\<lambda>tr labelKeys.
     andThen (collect wd skipMap labelKeys ps tr (initState labelKeys))
       (\<lambda>tr st.
     Ok tr \<lparr>planPces = ps, planSkip = skipMap, planKeys = labelKeys,
            planState = reconcile labelKeys st\<rparr>)))) = Ok tr pl"
    unfolding makePlan_def .
  from andThen_Ok [OF this] obtain tr1 x where
    a: "getPces wd (SplitComma (RemoveSpaces (pceList cfg)))
             [LogInfo ''getting pces and labels...''] [] (\<lambda>_. False) = Ok tr1 x"
    and b: "(case x of (ps, pceNameMap) \<Rightarrow>
     andThen (if skipSources cfg \<noteq> []
              then checkSkips (SplitComma (RemoveSpaces (skipSources cfg))) pceNameMap tr1
                     (\<lambda>_. False)
              else Ok tr1 (\<lambda>_. False))
       (\<lambda>tr skipMap.
     andThen (getLabelKeys wd ps tr)
       (\<lambda>tr labelKeys.
     andThen (collect wd skipMap labelKeys ps tr (initState labelKeys))
       (\<lambda>tr st.
     Ok tr \<lparr>planPces = ps, planSkip = skipMap, planKeys = labelKeys,
            planState = reconcile labelKeys st\<rparr>)))) = Ok tr pl"
    by blast
  obtain ps pceNameMap where x: "x = (ps, pceNameMap)" by (cases x)
  from b have "andThen (if skipSources cfg \<noteq> []
              then checkSkips (SplitComma (RemoveSpaces (skipSources cfg))) pceNameMap tr1
                     (\<lambda>_. False)
              else Ok tr1 (\<lambda>_. False))
       (\<lambda>tr skipMap.
     andThen (getLabelKeys wd ps tr)
       (\<lambda>tr labelKeys.
     andThen (collect wd skipMap labelKeys ps tr (initState labelKeys))
       (\<lambda>tr st.
     Ok tr \<lparr>planPces = ps, planSkip = skipMap, planKeys = labelKeys,
            planState = reconcile labelKeys st\<rparr>))) = Ok tr pl"
    by (simp add: x)
  from andThen_Ok [OF this] obtain tr2 skipMap where
    c: "(if skipSources cfg \<noteq> []
              then checkSkips (SplitComma (RemoveSpaces (skipSources cfg))) pceNameMap tr1
                     (\<lambda>_. False)
              else Ok tr1 (\<lambda>_. False)) = Ok tr2 skipMap"
    and d: "andThen (getLabelKeys wd ps tr2)
       (\<lambda>tr labelKeys.
     andThen (collect wd skipMap labelKeys ps tr (initState labelKeys))
       (\<lambda>tr st.
     Ok tr \<lparr>planPces = ps, planSkip = skipMap, planKeys = labelKeys,
            planState = reconcile labelKeys st\<rparr>)) = Ok tr pl"
    by blast
  from andThen_Ok [OF d] obtain tr3 ks where
    e: "getLabelKeys wd ps tr2 = Ok tr3 ks"
    and f: "andThen (collect wd skipMap ks ps tr3 (initState ks))
       (\<lambda>tr st.
     Ok tr \<lparr>planPces = ps, planSkip = skipMap, planKeys = ks,
            planState = reconcile ks st\<rparr>) = Ok tr pl"
    by blast
  from andThen_Ok [OF f] obtain tr4 st where
    g: "collect wd skipMap ks ps tr3 (initState ks) = Ok tr4 st"
    and h: "Ok tr4 \<lparr>planPces = ps, planSkip = skipMap, planKeys = ks,
            planState = reconcile ks st\<rparr> = Ok tr pl"
    by blast
  from h have pl: "pl = \<lparr>planPces = ps, planSkip = skipMap, planKeys = ks,
            planState = reconcile ks st\<rparr>" and tr: "tr4 = tr" by simp_all
  show ?thesis
    using a c e g x by (simp add: pl tr)
qed

text \<open>
  Claim C8. When the two batches have been computed, the first row of the upsert batch is
  \<^verbatim>\<open>source\<close>, the hostname and description columns, one column for each discovered label key,
  and the interfaces, external data set and external data reference columns; every row after
  it has 3 + |labelKeys| + 3 columns.
\<close>

theorem upsert_rows_shape:
  assumes "makePlan cfg wd = Ok tr pl"
  shows "hd (wkldImportCsvData (planState pl)) =
           [''source'', HeaderHostname, HeaderDescription] @ planKeys pl
             @ [HeaderInterfaces, HeaderExternalDataSet, HeaderExternalDataReference]
       \<and> (\<forall>row \<in> set (tl (wkldImportCsvData (planState pl))).
            length row = 3 + length (planKeys pl) + 3)"
proof -
  from makePlan_Ok [OF assms] obtain tr3 st where
    c: "collect wd (planSkip pl) (planKeys pl) (planPces pl) tr3 (initState (planKeys pl)) = Ok tr st"
    and s: "planState pl = reconcile (planKeys pl) st"
    by blast
  have "rowsOk (planKeys pl) st"
    using rowsOk_collect [OF rowsOk_init c] .
  then have "rowsOk (planKeys pl) (planState pl)"
    by (simp add: s rowsOk_reconcile)
  then show ?thesis
    by (simp add: rowsOk_def headerRow_def)
qed

theorem upsert_rows_shape_witness:
  "\<exists>tr pl. makePlan exConfig exWorld = Ok tr pl
     \<and> hd (wkldImportCsvData (planState pl)) =
          [''source'', HeaderHostname, HeaderDescription, ''role'',
           HeaderInterfaces, HeaderExternalDataSet, HeaderExternalDataReference]
     \<and> [''A'', ''h1'', ''managed ven on a.example'', ''web'', ''eth0:10.0.0.1'', ''wkld-replicate'',
         ''a.example-managed-wkld-/w/1''] \<in> set (tl (wkldImportCsvData (planState pl)))
     \<and> (\<forall>row \<in> set (tl (wkldImportCsvData (planState pl))). length row = 7)"
proof -
  obtain tr pl where p: "makePlan exConfig exWorld = Ok tr pl"
    and k: "planKeys pl = [''role'']"
    and r: "[''A'', ''h1'', ''managed ven on a.example'', ''web'', ''eth0:10.0.0.1'', ''wkld-replicate'',
         ''a.example-managed-wkld-/w/1''] \<in> set (tl (wkldImportCsvData (planState pl)))"
    by (simp add: ex_defs run_defs)
  from upsert_rows_shape [OF p] k r p show ?thesis by simp
qed

section \<open>The unmanaged workloads\<close>

lemma reconcileOne_maps [simp]:
  "managedWkldMap (reconcileOne ks st wk) = managedWkldMap st"
  "unmanagedWkldMap (reconcileOne ks st wk) = unmanagedWkldMap st"
  by (simp_all add: reconcileOne_def scheduleDelete_def Let_def)

lemma foldl_reconcileOne_maps [simp]:
  "managedWkldMap (foldl (reconcileOne ks) st xs) = managedWkldMap st"
  "unmanagedWkldMap (foldl (reconcileOne ks) st xs) = unmanagedWkldMap st"
  by (induction xs arbitrary: st) simp_all

section \<open>Traces\<close>

lemma trace_simps [simp]:
  "trace (Fatal tr msg) = tr" "trace (Ok tr x) = tr" "trace (LogError tr msg) = tr"
  by (simp_all add: trace_def LogError_def)

lemma trace_andThen:
  "trace (andThen r f) = (case r of Fatal tr msg \<Rightarrow> tr | Ok tr x \<Rightarrow> trace (f tr x))"
  by (cases r) (simp_all add: andThen_def)

lemma quiet_getPces:
  "\<forall>e \<in> set tr. quiet e \<Longrightarrow> \<forall>e \<in> set (trace (getPces wd ns tr ps m)). quiet e"
proof (induction ns arbitrary: tr ps m)
  case Nil
  then show ?case by simp
next
  case (Cons n ns)
  have q: "\<forall>e \<in> set (tr @ [GetPCEbyNameCall n]). quiet e"
    using Cons.prems by (simp add: quiet_def)
  show ?case
  proof (cases "GetPCEbyName wd n")
    case (Inl err)
    then show ?thesis using q by simp
  next
    case (Inr p)
    then show ?thesis using Cons.IH [OF q] by simp
  qed
qed

lemma getPces_Ok_quiet:
  "getPces wd ns tr ps m = Ok tr' x \<Longrightarrow> \<forall>e \<in> set tr. quiet e \<Longrightarrow> \<forall>e \<in> set tr'. quiet e"
  using quiet_getPces [of tr wd ns ps m] by simp

lemma checkSkips_trace: "trace (checkSkips ns m tr s) = tr"
  by (induction ns arbitrary: s) simp_all

lemma quiet_getLabelKeys:
  "\<forall>e \<in> set tr. quiet e \<Longrightarrow> \<forall>e \<in> set (trace (getLabelKeys wd ps tr)). quiet e"
  by (auto simp: getLabelKeys_def quiet_def split: list.splits sum.splits)

lemma collectWklds_trace': "trace (collectWklds p ks ws tr st) = tr"
  by (induction ws arbitrary: st) simp_all

lemma quiet_collect:
  "\<forall>e \<in> set tr. quiet e \<Longrightarrow> \<forall>e \<in> set (trace (collect wd skipMap ks ps tr st)). quiet e"
proof (induction ps arbitrary: tr st)
  case Nil
  then show ?case by simp
next
  case (Cons p ps)
  show ?case
  proof (cases "skipMap (FriendlyName p)")
    case True
    then show ?thesis using Cons by simp
  next
    case False
    let ?tr1 = "tr @ [GetWkldsCall (FQDN p)]"
    let ?st1 = "st\<lparr>deleteHrefMap := (deleteHrefMap st)(FQDN p \<mapsto> [])\<rparr>"
    have q: "\<forall>e \<in> set ?tr1. quiet e" using Cons.prems by (simp add: quiet_def)
    show ?thesis
    proof (cases "GetWklds wd p")
      case (Inl err)
      then show ?thesis using False q by (simp add: Let_def)
    next
      case (Inr ws)
      show ?thesis
      proof (cases "collectWklds (p\<lparr>WorkloadsSlice := ws\<rparr>) ks ws ?tr1 ?st1")
        case (Fatal t msg)
        then have "t = ?tr1" using collectWklds_trace' [of "p\<lparr>WorkloadsSlice := ws\<rparr>" ks ws ?tr1 ?st1] by simp
        then show ?thesis using False Inr Fatal q by (simp add: Let_def)
      next
        case (Ok t st2)
        then have "t = ?tr1" using collectWklds_trace' [of "p\<lparr>WorkloadsSlice := ws\<rparr>" ks ws ?tr1 ?st1] by simp
        then show ?thesis using False Inr Ok Cons.IH [OF q] by (simp add: Let_def)
      qed
    qed
  qed
qed

lemma quiet_makePlan: "\<forall>e \<in> set (trace (makePlan cfg wd)). quiet e"
proof -
  let ?r1 = "getPces wd (SplitComma (RemoveSpaces (pceList cfg)))
                [LogInfo ''getting pces and labels...''] [] (\<lambda>_. False)"
  have q0: "\<forall>e \<in> set [LogInfo ''getting pces and labels...'']. quiet e"
    by (simp add: quiet_def)
  have q1: "\<forall>e \<in> set (trace ?r1). quiet e"
    using quiet_getPces [OF q0] .
  show ?thesis
  proof (cases ?r1)
    case (Fatal t msg)
    then show ?thesis using q1 by (simp add: makePlan_def andThen_def)
  next
    case (Ok tr1 x)
    obtain ps pceNameMap where x: "x = (ps, pceNameMap)" by (cases x)
    have qtr1: "\<forall>e \<in> set tr1. quiet e" using q1 Ok by simp
    let ?r2 = "if skipSources cfg \<noteq> []
              then checkSkips (SplitComma (RemoveSpaces (skipSources cfg))) pceNameMap tr1
                     (\<lambda>_. False)
              else Ok tr1 (\<lambda>_. False)"
    have t2: "trace ?r2 = tr1" by (simp add: checkSkips_trace)
    show ?thesis
    proof (cases ?r2)
      case (Fatal t msg)
      then have "t = tr1" using t2 by simp
      then show ?thesis using Ok x Fatal qtr1 by (simp add: makePlan_def andThen_def)
    next
      case Ok2: (Ok tr2 skipMap)
      then have tr2: "tr2 = tr1" using t2 by simp
      have q3: "\<forall>e \<in> set (trace (getLabelKeys wd ps tr1)). quiet e"
        using quiet_getLabelKeys [OF qtr1] .
      show ?thesis
      proof (cases "getLabelKeys wd ps tr1")
        case (Fatal t msg)
        then show ?thesis using Ok x Ok2 tr2 q3 by (simp add: makePlan_def andThen_def)
      next
        case Ok3: (Ok tr3 ks)
        then have qtr3: "\<forall>e \<in> set tr3. quiet e" using q3 by simp
        have q4: "\<forall>e \<in> set (trace (collect wd skipMap ks ps tr3 (initState ks))). quiet e"
          using quiet_collect [OF qtr3] .
        show ?thesis
        proof (cases "collect wd skipMap ks ps tr3 (initState ks)")
          case (Fatal t msg)
          then show ?thesis using Ok x Ok2 tr2 Ok3 q4 by (simp add: makePlan_def andThen_def)
        next
          case Ok4: (Ok tr4 st)
          then show ?thesis using Ok x Ok2 tr2 Ok3 q4 by (simp add: makePlan_def andThen_def)
        qed
      qed
    qed
  qed
qed

lemma quiet_not_mutation: "quiet e \<Longrightarrow> \<not> mutation e"
  by (cases e) (simp_all add: quiet_def mutation_def)

lemma written_append [simp]: "written (xs @ ys) = written xs @ written ys"
  by (induction xs rule: written.induct) simp_all

lemma written_quiet: "\<forall>e \<in> set tr. quiet e \<Longrightarrow> written tr = []"
  by (induction tr rule: written.induct) (simp_all add: quiet_def)

lemma written_deleteHrefs: "written (trace (deleteHrefs wd p hs tr)) = written tr"
proof (induction hs arbitrary: tr)
  case Nil
  show ?case by simp
next
  case (Cons h hs)
  obtain status err where d: "DeleteHref wd p h = (status, err)" by (cases "DeleteHref wd p h")
  show ?case
  proof (cases err)
    case None
    then show ?thesis using d Cons.IH by simp
  next
    case (Some e)
    then show ?thesis using d by simp
  qed
qed

lemma deleteHrefs_events:
  "e \<in> set (trace (deleteHrefs wd p hs tr)) \<Longrightarrow>
   e \<in> set tr \<or> (\<exists>h \<in> set hs. e = DeleteHrefCall (FriendlyName p) (FQDN p) h)
     \<or> (\<exists>m. e = LogInfo m)"
proof (induction hs arbitrary: tr)
  case Nil
  then show ?case by simp
next
  case (Cons h hs)
  obtain status err where d: "DeleteHref wd p h = (status, err)" by (cases "DeleteHref wd p h")
  show ?case
  proof (cases err)
    case None
    with d Cons.prems have "e \<in> set (trace (deleteHrefs wd p hs
        (tr @ [DeleteHrefCall (FriendlyName p) (FQDN p) h,
               LogInfo (h @ '' is in '' @ FQDN p @ '' delete - '' @ showInt status)])))"
      by simp
    from Cons.IH [OF this] show ?thesis by auto
  next
    case (Some x)
    with d Cons.prems show ?thesis by auto
  qed
qed

lemma written_applyActions: "written (trace (applyActions wd st f ps tr)) = written tr"
proof (induction ps arbitrary: tr)
  case Nil
  show ?case by simp
next
  case (Cons p ps)
  let ?tr1 = "if length (wkldImportCsvData st) > 1
                 then tr @ [LogInfo (''running wkld-import for '' @ FriendlyName p @ '' ('' @ FQDN p
                                     @ '') with '' @ f),
                            ImportWkldsFromCSVCall (FriendlyName p) (FQDN p) f]
                 else tr"
  let ?tr2 = "?tr1 @ [LogInfo (''running delete api for '' @ FriendlyName p @ '' ('' @ FQDN p @ '')'')]"
  have w1: "written ?tr1 = written tr" by simp
  show ?case
  proof (cases "length (wkldDeleteCsvdata st) > 1")
    case False
    then show ?thesis using Cons.IH [of ?tr1] w1 by (simp add: Let_def)
  next
    case True
    let ?d = "deleteHrefs wd p (hrefsOf (deleteHrefMap st) (FQDN p)) ?tr2"
    have wd2: "written (trace ?d) = written tr"
      using written_deleteHrefs [of wd p "hrefsOf (deleteHrefMap st) (FQDN p)" ?tr2] by simp
    show ?thesis
    proof (cases ?d)
      case (Fatal t msg)
      then show ?thesis using True wd2 by (simp add: Let_def)
    next
      case (Ok t u)
      then show ?thesis using True wd2 Cons.IH [of t] by (simp add: Let_def)
    qed
  qed
qed

lemma applyActions_events:
  "e \<in> set (trace (applyActions wd st f ps tr)) \<Longrightarrow>
   e \<in> set tr
   \<or> (\<exists>q \<in> set ps. e = ImportWkldsFromCSVCall (FriendlyName q) (FQDN q) f
        \<or> (\<exists>h \<in> set (hrefsOf (deleteHrefMap st) (FQDN q)).
              e = DeleteHrefCall (FriendlyName q) (FQDN q) h))
   \<or> (\<exists>m. e = LogInfo m)"
proof (induction ps arbitrary: tr)
  case Nil
  then show ?case by simp
next
  case (Cons p ps)
  let ?tr1 = "if length (wkldImportCsvData st) > 1
                 then tr @ [LogInfo (''running wkld-import for '' @ FriendlyName p @ '' ('' @ FQDN p
                                     @ '') with '' @ f),
                            ImportWkldsFromCSVCall (FriendlyName p) (FQDN p) f]
                 else tr"
  let ?tr2 = "?tr1 @ [LogInfo (''running delete api for '' @ FriendlyName p @ '' ('' @ FQDN p @ '')'')]"
  let ?goal = "e \<in> set tr
   \<or> (\<exists>q \<in> set (p # ps). e = ImportWkldsFromCSVCall (FriendlyName q) (FQDN q) f
        \<or> (\<exists>h \<in> set (hrefsOf (deleteHrefMap st) (FQDN q)).
              e = DeleteHrefCall (FriendlyName q) (FQDN q) h))
   \<or> (\<exists>m. e = LogInfo m)"
  have in1: "x \<in> set ?tr1 \<Longrightarrow> x \<in> set tr
      \<or> x = ImportWkldsFromCSVCall (FriendlyName p) (FQDN p) f \<or> (\<exists>m. x = LogInfo m)" for x
    by (auto split: if_splits)
  have in2: "x \<in> set ?tr2 \<Longrightarrow> x \<in> set tr
      \<or> x = ImportWkldsFromCSVCall (FriendlyName p) (FQDN p) f \<or> (\<exists>m. x = LogInfo m)" for x
    by (auto split: if_splits)
  show ?case
  proof (cases "length (wkldDeleteCsvdata st) > 1")
    case False
    with Cons.prems have "e \<in> set (trace (applyActions wd st f ps ?tr1))"
      by (simp add: Let_def)
    from Cons.IH [OF this] in1 [of e] show ?thesis by auto
  next
    case True
    let ?d = "deleteHrefs wd p (hrefsOf (deleteHrefMap st) (FQDN p)) ?tr2"
    have dev: "x \<in> set (trace ?d) \<Longrightarrow> x \<in> set tr
        \<or> x = ImportWkldsFromCSVCall (FriendlyName p) (FQDN p) f
        \<or> (\<exists>h \<in> set (hrefsOf (deleteHrefMap st) (FQDN p)).
              x = DeleteHrefCall (FriendlyName p) (FQDN p) h)
        \<or> (\<exists>m. x = LogInfo m)" for x
      using deleteHrefs_events [of x wd p "hrefsOf (deleteHrefMap st) (FQDN p)" ?tr2] in2 [of x]
      by blast
    show ?thesis
    proof (cases ?d)
      case (Fatal t msg)
      with True Cons.prems have "e \<in> set (trace ?d)" by (simp add: Let_def)
      from dev [OF this] show ?thesis by auto
    next
      case (Ok t u)
      with True Cons.prems have "e \<in> set (trace (applyActions wd st f ps t))"
        by (simp add: Let_def)
      from Cons.IH [OF this] have "e \<in> set t
         \<or> (\<exists>q \<in> set ps. e = ImportWkldsFromCSVCall (FriendlyName q) (FQDN q) f
              \<or> (\<exists>h \<in> set (hrefsOf (deleteHrefMap st) (FQDN q)).
                    e = DeleteHrefCall (FriendlyName q) (FQDN q) h))
         \<or> (\<exists>m. e = LogInfo m)" .
      moreover have "e \<in> set t \<Longrightarrow> e \<in> set (trace ?d)" using Ok by simp
      ultimately show ?thesis using dev [of e] by auto
    qed
  qed
qed

lemma trace_wkldReplicate:
  "trace (wkldReplicate cfg wd) =
     (case makePlan cfg wd of Fatal tr msg \<Rightarrow> tr | Ok tr pl \<Rightarrow> trace (finish cfg wd tr pl))"
  by (simp add: wkldReplicate_def trace_andThen)

lemma written_exports:
  "written (exportDelete cfg wd st (fst (exportImport cfg wd st tr))) =
     written tr
       @ (if 1 < length (wkldImportCsvData st)
          then [(importFileName cfg wd, wkldImportCsvData st)] else [])
       @ (if 1 < length (wkldDeleteCsvdata st)
          then [(deleteFileName cfg wd, wkldDeleteCsvdata st)] else [])"
  by (simp add: exportDelete_def exportImport_def)

lemma written_finish:
  "written (trace (finish cfg wd tr pl)) =
     written tr
       @ (if 1 < length (wkldImportCsvData (planState pl))
          then [(importFileName cfg wd, wkldImportCsvData (planState pl))] else [])
       @ (if 1 < length (wkldDeleteCsvdata (planState pl))
          then [(deleteFileName cfg wd, wkldDeleteCsvdata (planState pl))] else [])"
proof -
  obtain tr1 fname where e: "exportImport cfg wd (planState pl) tr = (tr1, fname)"
    by (cases "exportImport cfg wd (planState pl) tr")
  let ?tr2 = "exportDelete cfg wd (planState pl) tr1"
  have w: "written ?tr2 = written tr
       @ (if 1 < length (wkldImportCsvData (planState pl))
          then [(importFileName cfg wd, wkldImportCsvData (planState pl))] else [])
       @ (if 1 < length (wkldDeleteCsvdata (planState pl))
          then [(deleteFileName cfg wd, wkldDeleteCsvdata (planState pl))] else [])"
    using written_exports [of cfg wd "planState pl" tr] e by simp
  have "written (trace (finish cfg wd tr pl)) = written ?tr2"
    using e by (simp add: finish_def Let_def written_applyActions)
  then show ?thesis using w by simp
qed

lemma exports_mutation:
  "\<forall>e \<in> set tr. \<not> mutation e \<Longrightarrow>
   \<forall>e \<in> set (exportDelete cfg wd st (fst (exportImport cfg wd st tr))). \<not> mutation e"
  by (simp add: exportDelete_def exportImport_def mutation_def)

lemma finish_no_consent:
  assumes "\<forall>e \<in> set tr. \<not> mutation e" and "\<not> consent cfg wd"
  shows "\<forall>e \<in> set (trace (finish cfg wd tr pl)). \<not> mutation e"
proof -
  obtain tr1 fname where e: "exportImport cfg wd (planState pl) tr = (tr1, fname)"
    by (cases "exportImport cfg wd (planState pl) tr")
  have q: "\<forall>e \<in> set (exportDelete cfg wd (planState pl) tr1). \<not> mutation e"
    using exports_mutation [OF assms(1), of cfg wd "planState pl"] e by simp
  show ?thesis
    using assms(2) e q by (auto simp: finish_def Let_def consent_def mutation_def)
qed

lemma makePlan_updatePCE: "makePlan (cfg\<lparr>updatePCE := b\<rparr>) wd = makePlan cfg wd"
  by (simp add: makePlan_def cong: if_cong)

section \<open>The gate\<close>

text \<open>
  Against claim C6: the operator answers \<^verbatim>\<open>YES please\<close>, which is not \<^verbatim>\<open>yes\<close> in any mix of upper
  and lower case. \<^verbatim>\<open>fmt.Scanln\<close> stores the first word, the rest of the line only makes it return
  an error that line 271 drops, and the run goes on to its delete call.
\<close>

theorem first_word_counterexample:
  "answer exChattyWorld = ''YES please'' \<and> ToLower (answer exChattyWorld) \<noteq> ''yes''
   \<and> updatePCE exConfig \<and> \<not> noPrompt exConfig
   \<and> DeleteHrefCall ''B'' ''b.example'' ''/w/4''
         \<in> set (trace (wkldReplicate exConfig exChattyWorld))"
proof -
  have l: "ToLower ''YES please'' = ''yes please''" by code_simp
  have s: "ToLower (Scanln ''YES please'') = ''yes''" by code_simp
  show ?thesis
    by (simp add: exChattyWorld_def ex_defs run_defs s l)
qed

text \<open>
  Claim C6, amended. An import or a delete call occurs in a run only if execution is enabled and,
  when the prompt is not suppressed, the first word of the operator's answer (what
  \<^verbatim>\<open>fmt.Scanln\<close> stores: the text after leading white space, up to the next white space) is
  \<^verbatim>\<open>yes\<close> in any mix of upper and lower case.
\<close>

theorem mutation_needs_consent:
  assumes "e \<in> set (trace (wkldReplicate cfg wd))" and "mutation e"
  shows "updatePCE cfg \<and> (noPrompt cfg \<or> ToLower (Scanln (answer wd)) = ''yes'')"
proof (rule ccontr)
  assume "\<not> (updatePCE cfg \<and> (noPrompt cfg \<or> ToLower (Scanln (answer wd)) = ''yes''))"
  then have nc: "\<not> consent cfg wd" by (simp add: consent_def)
  have "\<not> mutation e"
  proof (cases "makePlan cfg wd")
    case (Fatal tr msg)
    then have "e \<in> set (trace (makePlan cfg wd))" using assms(1) by (simp add: trace_wkldReplicate)
    then show ?thesis using quiet_makePlan quiet_not_mutation by blast
  next
    case (Ok tr pl)
    then have "\<forall>x \<in> set tr. \<not> mutation x"
      using quiet_makePlan [of cfg wd] quiet_not_mutation by auto
    from finish_no_consent [OF this nc, of pl] show ?thesis
      using assms(1) Ok by (simp add: trace_wkldReplicate)
  qed
  with assms(2) show False by simp
qed

theorem mutation_needs_consent_witness:
  "DeleteHrefCall ''B'' ''b.example'' ''/w/4'' \<in> set (trace (wkldReplicate exConfig exWorld))
   \<and> updatePCE exConfig \<and> \<not> noPrompt exConfig \<and> ToLower (Scanln (answer exWorld)) = ''yes''"
proof -
  have m: "DeleteHrefCall ''B'' ''b.example'' ''/w/4'' \<in> set (trace (wkldReplicate exConfig exWorld))"
    by (simp add: ex_defs run_defs Scanln_Yes)
  have k: "mutation (DeleteHrefCall ''B'' ''b.example'' ''/w/4'')"
    by (simp add: mutation_def)
  have "\<not> noPrompt exConfig" by (simp add: exConfig_def)
  with mutation_needs_consent [OF m k] m show ?thesis by simp
qed

section \<open>The output files\<close>

text \<open>
  Against claim C9: a dry run over instances where no proxy is stale writes the upsert batch
  and no delete file.
\<close>

theorem batches_written_counterexample:
  "written (trace (wkldReplicate exDryRun exCleanWorld)) =
     [(''wkld-import-run.csv'',
       [headerRow [''role''],
        [''A'', ''h1'', ''managed ven on a.example'', ''web'', ''eth0:10.0.0.1'', ''wkld-replicate'',
         ''a.example-managed-wkld-/w/1'']])]"
  by (simp add: ex_defs more_defs run_defs)

text \<open>
  Claim C9, amended. In every run that gets as far as the output, with execution enabled or
  not, the files written are the upsert batch when it has a row besides the header, and the
  delete batch when it has a row besides the header, in this order and nothing else.
\<close>

theorem batches_written:
  assumes "makePlan cfg wd = Ok tr pl"
  shows "written (trace (wkldReplicate cfg wd)) =
       (if 1 < length (wkldImportCsvData (planState pl))
        then [(importFileName cfg wd, wkldImportCsvData (planState pl))] else [])
     @ (if 1 < length (wkldDeleteCsvdata (planState pl))
        then [(deleteFileName cfg wd, wkldDeleteCsvdata (planState pl))] else [])"
proof -
  have "written tr = []"
    using quiet_makePlan [of cfg wd] assms written_quiet by simp
  then show ?thesis
    using assms by (simp add: trace_wkldReplicate written_finish)
qed

theorem batches_written_witness:
  "\<exists>imp del. written (trace (wkldReplicate exConfig exWorld)) =
       [(''wkld-import-run.csv'', imp), (''wkld-delete-run.csv'', del)]
     \<and> written (trace (wkldReplicate exDryRun exWorld)) =
       [(''wkld-import-run.csv'', imp), (''wkld-delete-run.csv'', del)]
     \<and> del = [[''href'', ''pce_fqdn'', ''pce_name''], [''/w/4'', ''b.example'', ''B'']]"
proof -
  obtain tr pl where p: "makePlan exConfig exWorld = Ok tr pl"
    and i: "1 < length (wkldImportCsvData (planState pl))"
    and d: "wkldDeleteCsvdata (planState pl)
              = [[''href'', ''pce_fqdn'', ''pce_name''], [''/w/4'', ''b.example'', ''B'']]"
    by (simp add: ex_defs run_defs)
  have p': "makePlan exDryRun exWorld = Ok tr pl"
    using p by (simp add: makePlan_updatePCE exDryRun_def)
  have f: "importFileName exConfig exWorld = ''wkld-import-run.csv''"
    "deleteFileName exConfig exWorld = ''wkld-delete-run.csv''"
    "importFileName exDryRun exWorld = ''wkld-import-run.csv''"
    "deleteFileName exDryRun exWorld = ''wkld-delete-run.csv''"
    by (simp_all add: importFileName_def deleteFileName_def exConfig_def exDryRun_def)
  from batches_written [OF p] batches_written [OF p'] i d f show ?thesis by simp
qed

section \<open>The skip-source check\<close>

text \<open>
  Against claim C5: with \<^verbatim>\<open>Z9\<close> as skip-source and \<^verbatim>\<open>A, B\<close> as the list of instances, the run
  ends at the check of line 86 after both instances have been looked up with their labels
  (lines 72-80); the message is the argument of line 87 as written, with \<^verbatim>\<open>%s\<close> in it and
  without the name.
\<close>

theorem skip_check_message:
  "wkldReplicate exSkipConfig exWorld =
     Fatal [LogInfo ''getting pces and labels...'', GetPCEbyNameCall ''A'', GetPCEbyNameCall ''B'']
       ''%s is not in the pce list. skipped pces must also be in the pce list''
   \<and> \<not> Contains ''%s is not in the pce list. skipped pces must also be in the pce list'' ''Z9''"
  by (simp add: ex_defs more_defs run_defs)

lemma getPces_result:
  "(\<exists>k msg. getPces wd ns tr ps m = Fatal (tr @ map GetPCEbyNameCall (take k ns)) msg)
   \<or> (\<exists>ps'. getPces wd ns tr ps m
                = Ok (tr @ map GetPCEbyNameCall ns) (ps', \<lambda>x. m x \<or> x \<in> set ns))"
proof (induction ns arbitrary: tr ps m)
  case Nil
  show ?case by simp
next
  case (Cons n ns)
  show ?case
  proof (cases "GetPCEbyName wd n")
    case (Inl err)
    then have "getPces wd (n # ns) tr ps m
        = Fatal (tr @ map GetPCEbyNameCall (take 1 (n # ns))) err"
      by (simp add: LogError_def)
    then show ?thesis by blast
  next
    case (Inr p)
    let ?tr = "tr @ [GetPCEbyNameCall n]"
    let ?m = "m(n := True)"
    from Inr have step: "getPces wd (n # ns) tr ps m = getPces wd ns ?tr (ps @ [p]) ?m"
      by simp
    from Cons.IH [of ?tr "ps @ [p]" ?m] show ?thesis
    proof
      assume "\<exists>k msg. getPces wd ns ?tr (ps @ [p]) ?m
                = Fatal (?tr @ map GetPCEbyNameCall (take k ns)) msg"
      then obtain k msg where "getPces wd ns ?tr (ps @ [p]) ?m
                = Fatal (?tr @ map GetPCEbyNameCall (take k ns)) msg" by blast
      then have "getPces wd (n # ns) tr ps m
                = Fatal (tr @ map GetPCEbyNameCall (take (Suc k) (n # ns))) msg"
        unfolding step by simp
      then show ?thesis by blast
    next
      assume "\<exists>ps'. getPces wd ns ?tr (ps @ [p]) ?m
                = Ok (?tr @ map GetPCEbyNameCall ns) (ps', \<lambda>x. ?m x \<or> x \<in> set ns)"
      then obtain ps' where "getPces wd ns ?tr (ps @ [p]) ?m
                = Ok (?tr @ map GetPCEbyNameCall ns) (ps', \<lambda>x. ?m x \<or> x \<in> set ns)" by blast
      moreover have "(\<lambda>x. ?m x \<or> x \<in> set ns) = (\<lambda>x. m x \<or> x \<in> set (n # ns))"
        by (auto simp: fun_eq_iff)
      ultimately have "getPces wd (n # ns) tr ps m
                = Ok (tr @ map GetPCEbyNameCall (n # ns)) (ps', \<lambda>x. m x \<or> x \<in> set (n # ns))"
        unfolding step by simp
      then show ?thesis by blast
    qed
  qed
qed

lemma checkSkips_fatal:
  "n \<in> set ns \<Longrightarrow> \<not> m n \<Longrightarrow> \<exists>msg. checkSkips ns m tr s = Fatal tr msg"
proof (induction ns arbitrary: s)
  case Nil
  then show ?case by simp
next
  case (Cons a ns)
  show ?case
  proof (cases "m a")
    case False
    then show ?thesis by (simp add: LogError_def)
  next
    case True
    with Cons.prems have "n \<in> set ns" by auto
    from Cons.IH [OF this Cons.prems(2)] True show ?thesis by simp
  qed
qed

text \<open>
  Claim C5, amended. When a name of the skip-source list is not in the list of instances, the
  run ends with a fatal error; up to then it has looked up instances of the list, in order,
  and done nothing else: no label dimensions or workloads fetched, no file written, no prompt,
  no import and no delete.
\<close>

theorem skip_check_fatal:
  assumes "skipSources cfg \<noteq> []"
    and "n \<in> set (SplitComma (RemoveSpaces (skipSources cfg)))"
    and "n \<notin> set (SplitComma (RemoveSpaces (pceList cfg)))"
  shows "\<exists>k msg. wkldReplicate cfg wd =
           Fatal (LogInfo ''getting pces and labels...''
                    # map GetPCEbyNameCall (take k (SplitComma (RemoveSpaces (pceList cfg))))) msg"
proof -
  let ?ns = "SplitComma (RemoveSpaces (pceList cfg))"
  let ?tr0 = "[LogInfo ''getting pces and labels...'']"
  from getPces_result [of wd ?ns ?tr0 "[]" "\<lambda>_. False"] show ?thesis
  proof
    assume "\<exists>k msg. getPces wd ?ns ?tr0 [] (\<lambda>_. False)
              = Fatal (?tr0 @ map GetPCEbyNameCall (take k ?ns)) msg"
    then obtain k msg where "getPces wd ?ns ?tr0 [] (\<lambda>_. False)
              = Fatal (?tr0 @ map GetPCEbyNameCall (take k ?ns)) msg" by blast
    then have "wkldReplicate cfg wd
              = Fatal (LogInfo ''getting pces and labels...'' # map GetPCEbyNameCall (take k ?ns)) msg"
      by (simp add: wkldReplicate_def makePlan_def andThen_def)
    then show ?thesis by blast
  next
    assume "\<exists>ps'. getPces wd ?ns ?tr0 [] (\<lambda>_. False)
              = Ok (?tr0 @ map GetPCEbyNameCall ?ns) (ps', \<lambda>x. False \<or> x \<in> set ?ns)"
    then obtain ps' where g: "getPces wd ?ns ?tr0 [] (\<lambda>_. False)
              = Ok (?tr0 @ map GetPCEbyNameCall ?ns) (ps', \<lambda>x. False \<or> x \<in> set ?ns)" by blast
    have "\<not> (False \<or> n \<in> set ?ns)" using assms(3) by simp
    from checkSkips_fatal [OF assms(2), of "\<lambda>x. False \<or> x \<in> set ?ns", OF this]
    obtain msg where "checkSkips (SplitComma (RemoveSpaces (skipSources cfg)))
        (\<lambda>x. False \<or> x \<in> set ?ns) (?tr0 @ map GetPCEbyNameCall ?ns) (\<lambda>_. False)
          = Fatal (?tr0 @ map GetPCEbyNameCall ?ns) msg"
      by blast
    with g assms(1) have "wkldReplicate cfg wd
        = Fatal (LogInfo ''getting pces and labels...'' # map GetPCEbyNameCall (take (length ?ns) ?ns)) msg"
      by (simp add: wkldReplicate_def makePlan_def andThen_def)
    then show ?thesis by blast
  qed
qed

theorem skip_check_fatal_witness:
  "\<exists>k msg. wkldReplicate exSkipConfig exWorld =
     Fatal (LogInfo ''getting pces and labels...'' # map GetPCEbyNameCall (take k [''A'', ''B''])) msg"
proof -
  have 1: "skipSources exSkipConfig \<noteq> []" by (simp add: exSkipConfig_def)
  have 2: "''Z9'' \<in> set (SplitComma (RemoveSpaces (skipSources exSkipConfig)))"
    by (simp add: exSkipConfig_def RemoveSpaces_def)
  have 3: "''Z9'' \<notin> set (SplitComma (RemoveSpaces (pceList exSkipConfig)))"
    by (simp add: exSkipConfig_def exConfig_def RemoveSpaces_def)
  have "SplitComma (RemoveSpaces (pceList exSkipConfig)) = [''A'', ''B'']"
    by (simp add: exSkipConfig_def exConfig_def RemoveSpaces_def)
  with skip_check_fatal [OF 1 2 3, of exWorld] show ?thesis by simp
qed

section \<open>The apply phase\<close>

text \<open>
  Against claim C4: two deletes are scheduled on \<^verbatim>\<open>B\<close>, which comes before \<^verbatim>\<open>A\<close>; the first
  call fails. The run ends there: the second href is not deleted and nothing is applied
  to \<^verbatim>\<open>A\<close>.
\<close>

theorem apply_failure_counterexample:
  "wkldReplicate exFailConfig exFailWorld =
     Fatal
       [LogInfo ''getting pces and labels...'', GetPCEbyNameCall ''B'', GetPCEbyNameCall ''A'',
        GetLabelDimensionsCall ''b.example'', GetWkldsCall ''b.example'', GetWkldsCall ''a.example'',
        WriteOutputCall ''wkld-import-run.csv''
          [headerRow [''role''],
           [''A'', ''h1'', ''managed ven on a.example'', ''web'', ''eth0:10.0.0.1'',
            ''wkld-replicate'', ''a.example-managed-wkld-/w/1'']],
        LogInfo ''1 workloads to be imported'',
        WriteOutputCall ''wkld-delete-run.csv''
          [[''href'', ''pce_fqdn'', ''pce_name''], [''/w/4'', ''b.example'', ''B''],
           [''/w/5'', ''b.example'', ''B'']],
        LogInfo ''2 workloads to be deleted'',
        LogInfo ''running wkld-import for B (b.example) with wkld-import-run.csv'',
        ImportWkldsFromCSVCall ''B'' ''b.example'' ''wkld-import-run.csv'',
        LogInfo ''running delete api for B (b.example)'',
        DeleteHrefCall ''B'' ''b.example'' ''/w/4'']
       ''delete failed''"
  by (simp add: ex_defs more_defs run_defs showInt_ex)

lemma deleteHrefs_fail:
  assumes "\<forall>h' \<in> set pre. snd (DeleteHref wd p h') = None"
    and "snd (DeleteHref wd p h) = Some err"
  shows "deleteHrefs wd p (pre @ h # post) tr =
     Fatal (tr @ concat (map (deleteLog wd p) pre) @ [DeleteHrefCall (FriendlyName p) (FQDN p) h]) err"
  using assms(1)
proof (induction pre arbitrary: tr)
  case Nil
  obtain status e where d: "DeleteHref wd p h = (status, e)" by (cases "DeleteHref wd p h")
  with assms(2) show ?case by (simp add: LogError_def)
next
  case (Cons a pre)
  obtain status e where d: "DeleteHref wd p a = (status, e)" by (cases "DeleteHref wd p a")
  with Cons.prems have e: "e = None" by simp
  from Cons.prems have "\<forall>h' \<in> set pre. snd (DeleteHref wd p h') = None" by simp
  from Cons.IH [OF this] show ?case using d e by (simp add: deleteLog_def)
qed

lemma deleteHrefs_ok:
  "\<forall>h \<in> set hs. snd (DeleteHref wd p h) = None \<Longrightarrow>
   deleteHrefs wd p hs tr = Ok (tr @ concat (map (deleteLog wd p) hs)) ()"
proof (induction hs arbitrary: tr)
  case Nil
  show ?case by simp
next
  case (Cons a hs)
  obtain status e where d: "DeleteHref wd p a = (status, e)" by (cases "DeleteHref wd p a")
  with Cons.prems have e: "e = None" by simp
  from Cons.prems have "\<forall>h \<in> set hs. snd (DeleteHref wd p h) = None" by simp
  from Cons.IH [OF this] show ?case using d e by (simp add: deleteLog_def)
qed

text \<open>
  Claim C4, amended. In the apply phase, when a delete call on an instance fails after the calls
  before it have succeeded, the run ends with the error of the call: the trace is the import
  on that instance (when the upsert batch has rows), the deletes that succeeded with their log
  lines, and the failed call; the hrefs after it and the instances after it are not processed.
\<close>

theorem failed_delete_ends_run:
  assumes "1 < length (wkldDeleteCsvdata st)"
    and "hrefsOf (deleteHrefMap st) (FQDN p) = pre @ h # post"
    and "\<forall>h' \<in> set pre. snd (DeleteHref wd p h') = None"
    and "snd (DeleteHref wd p h) = Some err"
  shows "applyActions wd st fname (p # ps) tr =
     Fatal ((if 1 < length (wkldImportCsvData st)
             then tr @ [LogInfo (''running wkld-import for '' @ FriendlyName p @ '' ('' @ FQDN p
                                 @ '') with '' @ fname),
                        ImportWkldsFromCSVCall (FriendlyName p) (FQDN p) fname]
             else tr)
            @ [LogInfo (''running delete api for '' @ FriendlyName p @ '' ('' @ FQDN p @ '')'')]
            @ concat (map (deleteLog wd p) pre)
            @ [DeleteHrefCall (FriendlyName p) (FQDN p) h]) err"
  using assms(1,2) deleteHrefs_fail [OF assms(3,4)]
  by (simp add: Let_def)

theorem failed_delete_ends_run_witness:
  "applyActions exFailWorld
     \<lparr>managedWkldMap = [], unmanagedWkldMap = [],
      wkldImportCsvData = [headerRow [''role'']],
      wkldDeleteCsvdata = [[''href'', ''pce_fqdn'', ''pce_name''], [''/w/5'', ''b.example'', ''B''],
                           [''/w/4'', ''b.example'', ''B'']],
      deleteHrefMap = [''b.example'' \<mapsto> [''/w/5'', ''/w/4'', ''/w/6'']]\<rparr>
     ''wkld-import-run.csv'' [exB, exA] [] =
   Fatal [LogInfo ''running delete api for B (b.example)'',
          DeleteHrefCall ''B'' ''b.example'' ''/w/5'',
          LogInfo ''/w/5 is in b.example delete - 204'',
          DeleteHrefCall ''B'' ''b.example'' ''/w/4''] ''delete failed''"
proof -
  let ?st = "\<lparr>managedWkldMap = [], unmanagedWkldMap = [],
      wkldImportCsvData = [headerRow [''role'']],
      wkldDeleteCsvdata = [[''href'', ''pce_fqdn'', ''pce_name''], [''/w/5'', ''b.example'', ''B''],
                           [''/w/4'', ''b.example'', ''B'']],
      deleteHrefMap = [''b.example'' \<mapsto> [''/w/5'', ''/w/4'', ''/w/6'']]\<rparr>"
  have 1: "1 < length (wkldDeleteCsvdata ?st)" by simp
  have 2: "hrefsOf (deleteHrefMap ?st) (FQDN exB) = [''/w/5''] @ ''/w/4'' # [''/w/6'']"
    by (simp add: hrefsOf_def exB_def)
  have 3: "\<forall>h' \<in> set [''/w/5'']. snd (DeleteHref exFailWorld exB h') = None"
    by (simp add: exFailWorld_def exWorld_def)
  have 4: "snd (DeleteHref exFailWorld exB ''/w/4'') = Some ''delete failed''"
    by (simp add: exFailWorld_def exWorld_def)
  from failed_delete_ends_run [OF 1 2 3 4, of "''wkld-import-run.csv''" "[exA]" "[]"]
  show ?thesis
    by (simp add: deleteLog_def exB_def exFailWorld_def exWorld_def showInt_ex)
qed


section \<open>Instances excluded as a source\<close>

lemma snd_set_update:
  "snd ` set (AList.update k v al) \<subseteq> insert v (snd ` set al)"
  by (induction al) auto

lemma collectOne_del [simp]:
  "deleteHrefMap (collectOne p ks w st) = deleteHrefMap st"
  "wkldDeleteCsvdata (collectOne p ks w st) = wkldDeleteCsvdata st"
  by (simp_all add: collectOne_def Let_def)

lemma collectOne_entries:
  "wk \<in> snd ` set (unmanagedWkldMap (collectOne p ks w st)) \<Longrightarrow>
   wk \<in> snd ` set (unmanagedWkldMap st) \<or> pce wk = p"
  using snd_set_update [of "FQDN p @ Hostname w" "\<lparr>pce = p, workload = w\<rparr>" "unmanagedWkldMap st"]
  by (auto simp: collectOne_def Let_def split: if_splits)

lemma collectWklds_del:
  "collectWklds p ks ws tr st = Ok tr' st' \<Longrightarrow>
   deleteHrefMap st' = deleteHrefMap st \<and> wkldDeleteCsvdata st' = wkldDeleteCsvdata st"
proof (induction ws arbitrary: st)
  case Nil
  then show ?case by simp
next
  case (Cons w ws)
  from Cons.prems have "collectWklds p ks ws tr (collectOne p ks w st) = Ok tr' st'"
    by (auto simp: LogError_def split: if_splits)
  from Cons.IH [OF this] show ?case by simp
qed

lemma collectWklds_entries:
  "collectWklds p ks ws tr st = Ok tr' st' \<Longrightarrow>
   wk \<in> snd ` set (unmanagedWkldMap st') \<Longrightarrow>
   wk \<in> snd ` set (unmanagedWkldMap st) \<or> pce wk = p"
proof (induction ws arbitrary: st)
  case Nil
  then show ?case by simp
next
  case (Cons w ws)
  from Cons.prems(1) have "collectWklds p ks ws tr (collectOne p ks w st) = Ok tr' st'"
    by (auto simp: LogError_def split: if_splits)
  from Cons.IH [OF this Cons.prems(2)] show ?case
    using collectOne_entries by blast
qed

lemma collect_inv:
  assumes "collect wd skipMap ks ps tr st = Ok tr' st'"
  shows "(\<forall>wk \<in> snd ` set (unmanagedWkldMap st').
            wk \<in> snd ` set (unmanagedWkldMap st) \<or> sourceOf skipMap ps wk)
       \<and> ((\<forall>f. hrefsOf (deleteHrefMap st) f = []) \<longrightarrow> (\<forall>f. hrefsOf (deleteHrefMap st') f = []))
       \<and> wkldDeleteCsvdata st' = wkldDeleteCsvdata st"
  using assms
proof (induction ps arbitrary: tr st)
  case Nil
  then show ?case by simp
next
  case (Cons p ps)
  have weaken: "sourceOf skipMap ps wk \<Longrightarrow> sourceOf skipMap (p # ps) wk" for wk
    by (auto simp: sourceOf_def)
  show ?case
  proof (cases "skipMap (FriendlyName p)")
    case True
    with Cons.prems have "collect wd skipMap ks ps tr st = Ok tr' st'" by simp
    from Cons.IH [OF this] show ?thesis using weaken by blast
  next
    case False
    let ?st1 = "st\<lparr>deleteHrefMap := (deleteHrefMap st)(FQDN p \<mapsto> [])\<rparr>"
    let ?tr1 = "tr @ [GetWkldsCall (FQDN p)]"
    from Cons.prems False obtain ws t st2 where
      c: "collectWklds (p\<lparr>WorkloadsSlice := ws\<rparr>) ks ws ?tr1 ?st1 = Ok t st2"
      and rest: "collect wd skipMap ks ps t st2 = Ok tr' st'"
      by (auto simp: Let_def LogError_def split: sum.splits result.splits)
    have here: "sourceOf skipMap (p # ps) wk" if "pce wk = p\<lparr>WorkloadsSlice := ws\<rparr>" for wk
      using that False by (auto simp: sourceOf_def)
    have e2: "wk \<in> snd ` set (unmanagedWkldMap st2) \<Longrightarrow>
        wk \<in> snd ` set (unmanagedWkldMap st) \<or> sourceOf skipMap (p # ps) wk" for wk
      using collectWklds_entries [OF c, of wk] here by auto
    have d2: "deleteHrefMap st2 = (deleteHrefMap st)(FQDN p \<mapsto> [])"
      and r2: "wkldDeleteCsvdata st2 = wkldDeleteCsvdata st"
      using collectWklds_del [OF c] by simp_all
    have h2: "(\<forall>f. hrefsOf (deleteHrefMap st) f = []) \<longrightarrow> (\<forall>f. hrefsOf (deleteHrefMap st2) f = [])"
      by (simp add: d2 hrefsOf_def)
    from Cons.IH [OF rest] show ?thesis
      using e2 h2 r2 weaken by (metis (no_types, lifting))
  qed
qed

lemma delInv_reconcileOne:
  "delInv G st \<Longrightarrow> G wk \<Longrightarrow> delInv G (reconcileOne ks st wk)"
  by (auto simp: delInv_def reconcileOne_def scheduleDelete_def Let_def hrefsOf_def)

lemma delInv_foldl:
  "delInv G st \<Longrightarrow> \<forall>wk \<in> set xs. G wk \<Longrightarrow> delInv G (foldl (reconcileOne ks) st xs)"
  by (induction xs arbitrary: st) (simp_all add: delInv_reconcileOne)

lemma delInv_plan:
  assumes "makePlan cfg wd = Ok tr pl"
  shows "delInv (sourceOf (planSkip pl) (planPces pl)) (planState pl)"
proof -
  from makePlan_Ok [OF assms] obtain tr3 st where
    c: "collect wd (planSkip pl) (planKeys pl) (planPces pl) tr3 (initState (planKeys pl)) = Ok tr st"
    and s: "planState pl = reconcile (planKeys pl) st"
    by blast
  let ?G = "sourceOf (planSkip pl) (planPces pl)"
  from collect_inv [OF c] have e: "\<forall>wk \<in> snd ` set (unmanagedWkldMap st). ?G wk"
    and h: "\<forall>f. hrefsOf (deleteHrefMap st) f = []"
    and r: "wkldDeleteCsvdata st = [[''href'', ''pce_fqdn'', ''pce_name'']]"
    by (simp_all add: initState_def hrefsOf_def)
  have "delInv ?G st" using h r by (simp add: delInv_def)
  moreover have "\<forall>wk \<in> set (map snd (unmanagedWkldMap st)). ?G wk" using e by simp
  ultimately show ?thesis
    unfolding s reconcile_def by (rule delInv_foldl)
qed

lemma deleteHrefs_mono: "set tr \<subseteq> set (trace (deleteHrefs wd p hs tr))"
proof (induction hs arbitrary: tr)
  case Nil
  show ?case by simp
next
  case (Cons h hs)
  obtain status err where d: "DeleteHref wd p h = (status, err)" by (cases "DeleteHref wd p h")
  show ?case
  proof (cases err)
    case None
    then show ?thesis
      using d Cons.IH [of "tr @ [DeleteHrefCall (FriendlyName p) (FQDN p) h,
               LogInfo (h @ '' is in '' @ FQDN p @ '' delete - '' @ showInt status)]"]
      by auto
  next
    case (Some e)
    then show ?thesis using d by auto
  qed
qed

lemma applyActions_imports:
  "applyActions wd st f ps tr = Ok tr' u \<Longrightarrow> 1 < length (wkldImportCsvData st) \<Longrightarrow>
   set tr \<subseteq> set tr'
   \<and> (\<forall>q \<in> set ps. ImportWkldsFromCSVCall (FriendlyName q) (FQDN q) f \<in> set tr')"
proof (induction ps arbitrary: tr)
  case Nil
  then show ?case by simp
next
  case (Cons p ps)
  let ?tr1 = "tr @ [LogInfo (''running wkld-import for '' @ FriendlyName p @ '' ('' @ FQDN p
                                     @ '') with '' @ f),
                            ImportWkldsFromCSVCall (FriendlyName p) (FQDN p) f]"
  let ?tr2 = "?tr1 @ [LogInfo (''running delete api for '' @ FriendlyName p @ '' ('' @ FQDN p @ '')'')]"
  show ?case
  proof (cases "length (wkldDeleteCsvdata st) > 1")
    case False
    with Cons.prems have "applyActions wd st f ps ?tr1 = Ok tr' u" by (simp add: Let_def)
    from Cons.IH [OF this Cons.prems(2)] show ?thesis by auto
  next
    case True
    let ?d = "deleteHrefs wd p (hrefsOf (deleteHrefMap st) (FQDN p)) ?tr2"
    from True Cons.prems obtain t where d: "?d = Ok t ()"
      and rest: "applyActions wd st f ps t = Ok tr' u"
      by (auto simp: Let_def split: result.splits)
    have "set ?tr2 \<subseteq> set t" using deleteHrefs_mono [of ?tr2 wd p "hrefsOf (deleteHrefMap st) (FQDN p)"] d
      by simp
    with Cons.IH [OF rest Cons.prems(2)] show ?thesis by auto
  qed
qed

lemma finish_deletes:
  assumes "DeleteHrefCall n f h \<in> set (trace (finish cfg wd tr pl))"
  shows "DeleteHrefCall n f h \<in> set tr
     \<or> (\<exists>q \<in> set (planPces pl). n = FriendlyName q \<and> f = FQDN q
           \<and> h \<in> set (hrefsOf (deleteHrefMap (planState pl)) (FQDN q)))"
proof -
  obtain tr1 fname where e: "exportImport cfg wd (planState pl) tr = (tr1, fname)"
    by (cases "exportImport cfg wd (planState pl) tr")
  let ?tr2 = "exportDelete cfg wd (planState pl) tr1"
  have in2: "DeleteHrefCall n f h \<in> set ?tr2 \<Longrightarrow> DeleteHrefCall n f h \<in> set tr"
    using e by (auto simp: exportDelete_def exportImport_def split: if_splits)
  let ?tr3 = "?tr2 @ (if updatePCE cfg \<and> \<not> noPrompt cfg then [PromptRead] else [])"
  have in3: "DeleteHrefCall n f h \<in> set ?tr3 \<Longrightarrow> DeleteHrefCall n f h \<in> set tr"
    using in2 by (auto split: if_splits)
  from assms e have "DeleteHrefCall n f h \<in> set ?tr2
      \<or> DeleteHrefCall n f h \<in> set (trace (applyActions wd (planState pl) fname (planPces pl) ?tr3))"
    by (auto simp: finish_def Let_def split: if_splits)
  then show ?thesis
  proof
    assume "DeleteHrefCall n f h \<in> set ?tr2"
    then show ?thesis using in2 by simp
  next
    assume "DeleteHrefCall n f h \<in> set (trace (applyActions wd (planState pl) fname (planPces pl) ?tr3))"
    from applyActions_events [OF this] in3 show ?thesis by auto
  qed
qed

lemma finish_imports:
  assumes "finish cfg wd tr pl = Ok tr' u" and "consent cfg wd"
    and "1 < length (wkldImportCsvData (planState pl))"
  shows "\<forall>q \<in> set (planPces pl).
           ImportWkldsFromCSVCall (FriendlyName q) (FQDN q) (importFileName cfg wd) \<in> set tr'"
proof -
  have e: "exportImport cfg wd (planState pl) tr =
      (tr @ [WriteOutputCall (importFileName cfg wd) (wkldImportCsvData (planState pl)),
               LogInfo (showInt (int (length (wkldImportCsvData (planState pl))) - 1)
                        @ '' workloads to be imported'')], importFileName cfg wd)"
    using assms(3) by (simp add: exportImport_def)
  from assms(1,2) obtain t where
    "applyActions wd (planState pl) (importFileName cfg wd) (planPces pl) t = Ok tr' u"
    unfolding finish_def e by (auto simp: Let_def consent_def split: if_splits)
  from applyActions_imports [OF this assms(3)] show ?thesis by blast
qed

text \<open>
  Against claim C10: \<^verbatim>\<open>A\<close> and \<^verbatim>\<open>A2\<close> are two names of the list with one address, and \<^verbatim>\<open>A2\<close> is
  excluded as a source. The hrefs to delete are kept by address (line 220) and read by address
  (line 297), so the delete scheduled from \<^verbatim>\<open>A\<close> is also called on \<^verbatim>\<open>A2\<close>.
\<close>

theorem skipped_instance_counterexample:
  "filter mutation (trace (wkldReplicate exAliasConfig exAliasWorld)) =
     [ImportWkldsFromCSVCall ''A'' ''a.example'' ''wkld-import-run.csv'',
      DeleteHrefCall ''A'' ''a.example'' ''/w/6'',
      ImportWkldsFromCSVCall ''A2'' ''a.example'' ''wkld-import-run.csv'',
      DeleteHrefCall ''A2'' ''a.example'' ''/w/6'']"
  by (simp add: ex_defs exA2_def exAliasConfig_def exAliasWorld_def exStaleA_def run_defs mutation_def)

text \<open>
  Claim C10, amended. For an instance of the list that is excluded as a source and whose
  address is not also the address of an instance that is a source: no row of the delete batch
  names it or its address, no href is listed for its address, and no delete call is made on its
  address in the run; when the run is carried out to its end with a non-empty upsert batch,
  the import is still called on it.
\<close>

theorem skipped_instance_untouched:
  assumes "makePlan cfg wd = Ok tr pl"
    and "p \<in> set (planPces pl)" and "planSkip pl (FriendlyName p)"
    and "\<forall>q \<in> set (planPces pl). \<not> planSkip pl (FriendlyName q) \<longrightarrow> FQDN q \<noteq> FQDN p"
  shows "(\<forall>row \<in> set (tl (wkldDeleteCsvdata (planState pl))).
            row ! 1 \<noteq> FQDN p \<and> row ! 2 \<noteq> FriendlyName p)
       \<and> hrefsOf (deleteHrefMap (planState pl)) (FQDN p) = []
       \<and> (\<forall>n h. DeleteHrefCall n (FQDN p) h \<notin> set (trace (wkldReplicate cfg wd)))
       \<and> (\<forall>tr'. wkldReplicate cfg wd = Ok tr' () \<and> consent cfg wd
                  \<and> 1 < length (wkldImportCsvData (planState pl))
             \<longrightarrow> ImportWkldsFromCSVCall (FriendlyName p) (FQDN p) (importFileName cfg wd)
                   \<in> set tr')"
proof -
  let ?G = "sourceOf (planSkip pl) (planPces pl)"
  have inv: "delInv ?G (planState pl)" using delInv_plan [OF assms(1)] .
  have G: "?G wk \<Longrightarrow> FQDN (pce wk) \<noteq> FQDN p \<and> FriendlyName (pce wk) \<noteq> FriendlyName p" for wk
    using assms(3,4) by (auto simp: sourceOf_def)
  have rows: "\<forall>row \<in> set (tl (wkldDeleteCsvdata (planState pl))).
            row ! 1 \<noteq> FQDN p \<and> row ! 2 \<noteq> FriendlyName p"
  proof
    fix row assume "row \<in> set (tl (wkldDeleteCsvdata (planState pl)))"
    with inv obtain wk where "?G wk"
      and "row = [Href (workload wk), FQDN (pce wk), FriendlyName (pce wk)]"
      unfolding delInv_def by blast
    then show "row ! 1 \<noteq> FQDN p \<and> row ! 2 \<noteq> FriendlyName p" using G by simp
  qed
  have none: "hrefsOf (deleteHrefMap (planState pl)) f = []" if "f = FQDN q"
    "q \<in> set (planPces pl)" "FQDN q = FQDN p" for f q
  proof (rule ccontr)
    assume "hrefsOf (deleteHrefMap (planState pl)) f \<noteq> []"
    with inv obtain wk where "?G wk" and "f = FQDN (pce wk)"
      unfolding delInv_def by blast
    with G that show False by simp
  qed
  have hrefs: "hrefsOf (deleteHrefMap (planState pl)) (FQDN p) = []"
    using none [of "FQDN p" p] assms(2) by simp
  have quiet_tr: "\<forall>e \<in> set tr. quiet e" using quiet_makePlan [of cfg wd] assms(1) by simp
  have calls: "\<forall>n h. DeleteHrefCall n (FQDN p) h \<notin> set (trace (wkldReplicate cfg wd))"
  proof (intro allI notI)
    fix n h assume "DeleteHrefCall n (FQDN p) h \<in> set (trace (wkldReplicate cfg wd))"
    then have "DeleteHrefCall n (FQDN p) h \<in> set (trace (finish cfg wd tr pl))"
      using assms(1) by (simp add: trace_wkldReplicate)
    from finish_deletes [OF this] show False
    proof
      assume "DeleteHrefCall n (FQDN p) h \<in> set tr"
      with quiet_tr have "quiet (DeleteHrefCall n (FQDN p) h)" by blast
      then show False by (simp add: quiet_def)
    next
      assume "\<exists>q \<in> set (planPces pl). n = FriendlyName q \<and> FQDN p = FQDN q
           \<and> h \<in> set (hrefsOf (deleteHrefMap (planState pl)) (FQDN q))"
      then obtain q where q: "q \<in> set (planPces pl)" and eq: "FQDN p = FQDN q"
        and h: "h \<in> set (hrefsOf (deleteHrefMap (planState pl)) (FQDN q))" by blast
      have "hrefsOf (deleteHrefMap (planState pl)) (FQDN q) = []"
        by (rule none [OF refl q eq [symmetric]])
      with h show False by simp
    qed
  qed
  have imps: "\<forall>tr'. wkldReplicate cfg wd = Ok tr' () \<and> consent cfg wd
                  \<and> 1 < length (wkldImportCsvData (planState pl))
             \<longrightarrow> ImportWkldsFromCSVCall (FriendlyName p) (FQDN p) (importFileName cfg wd)
                   \<in> set tr'"
  proof (intro allI impI)
    fix tr' assume a: "wkldReplicate cfg wd = Ok tr' () \<and> consent cfg wd
                  \<and> 1 < length (wkldImportCsvData (planState pl))"
    then have "finish cfg wd tr pl = Ok tr' ()"
      using assms(1) by (simp add: wkldReplicate_def andThen_def)
    from finish_imports [OF this] a assms(2)
    show "ImportWkldsFromCSVCall (FriendlyName p) (FQDN p) (importFileName cfg wd) \<in> set tr'"
      by blast
  qed
  show ?thesis
    by (rule conjI [OF rows conjI [OF hrefs conjI [OF calls imps]]])
qed

theorem skipped_instance_untouched_witness:
  "DeleteHrefCall ''A'' ''a.example'' ''/w/6'' \<in> set (trace (wkldReplicate exSkipBConfig exSkipBWorld))
   \<and> (\<forall>n h. DeleteHrefCall n ''b.example'' h \<notin> set (trace (wkldReplicate exSkipBConfig exSkipBWorld)))
   \<and> ImportWkldsFromCSVCall ''B'' ''b.example'' ''wkld-import-run.csv''
        \<in> set (trace (wkldReplicate exSkipBConfig exSkipBWorld))"
proof -
  obtain tr pl where p: "makePlan exSkipBConfig exSkipBWorld = Ok tr pl"
    and ps: "planPces pl = [exA, exB]"
    and sk: "planSkip pl = (\<lambda>_. False)(''B'' := True)"
    and i: "1 < length (wkldImportCsvData (planState pl))"
    by (simp add: ex_defs exSkipBConfig_def exSkipBWorld_def exStaleA_def run_defs)
  have 1: "exB \<in> set (planPces pl)" by (simp add: ps)
  have 2: "planSkip pl (FriendlyName exB)" by (simp add: sk exB_def)
  have 3: "\<forall>q \<in> set (planPces pl). \<not> planSkip pl (FriendlyName q) \<longrightarrow> FQDN q \<noteq> FQDN exB"
    by (simp add: ps sk exA_def exB_def)
  have d: "DeleteHrefCall ''A'' ''a.example'' ''/w/6''
             \<in> set (trace (wkldReplicate exSkipBConfig exSkipBWorld))"
    by (simp add: ex_defs exSkipBConfig_def exSkipBWorld_def exStaleA_def run_defs Scanln_Yes)
  obtain tr' where r: "wkldReplicate exSkipBConfig exSkipBWorld = Ok tr' ()"
    by (simp add: ex_defs exSkipBConfig_def exSkipBWorld_def exStaleA_def run_defs Scanln_Yes)
  have c: "consent exSkipBConfig exSkipBWorld"
    by (simp add: consent_def exSkipBConfig_def exSkipBWorld_def exWorld_def exConfig_def Scanln_Yes)
  have f: "importFileName exSkipBConfig exSkipBWorld = ''wkld-import-run.csv''"
    by (simp add: importFileName_def exSkipBConfig_def exConfig_def)
  from skipped_instance_untouched [OF p 1 2 3] r c i d f show ?thesis
    by (simp add: exB_def)
qed


section \<open>Maps as sequences of insertions\<close>

lemma inserts_append: "inserts al (xs @ ys) = inserts (inserts al xs) ys"
  by (induction xs arbitrary: al) simp_all

lemma update_keys: "fst ` set (AList.update k v al) = insert k (fst ` set al)"
  by (induction al) auto

lemma inserts_keys: "fst ` set (inserts al kvs) = fst ` set al \<union> fst ` set kvs"
  by (induction kvs arbitrary: al) (auto simp: update_keys)

lemma inserts_values: "snd ` set (inserts al kvs) \<subseteq> snd ` set al \<union> snd ` set kvs"
proof (induction kvs arbitrary: al)
  case Nil
  show ?case by simp
next
  case (Cons kv kvs)
  have "snd ` set (AList.update (fst kv) (snd kv) al) \<subseteq> insert (snd kv) (snd ` set al)"
    by (rule snd_set_update)
  with Cons.IH [of "AList.update (fst kv) (snd kv) al"] show ?case by auto
qed

lemma update_fresh: "k \<notin> fst ` set al \<Longrightarrow> AList.update k v al = al @ [(k, v)]"
  by (induction al) auto

lemma inserts_distinct:
  "distinct (map fst (al @ kvs)) \<Longrightarrow> inserts al kvs = al @ kvs"
proof (induction kvs arbitrary: al)
  case Nil
  show ?case by simp
next
  case (Cons kv kvs)
  from Cons.prems have fresh: "fst kv \<notin> fst ` set al" by auto
  have "distinct (map fst ((al @ [kv]) @ kvs))" using Cons.prems by simp
  from Cons.IH [OF this] show ?case
    using update_fresh [OF fresh, of "snd kv"] by simp
qed

lemma map_of_None_keys: "map_of al k = None \<longleftrightarrow> k \<notin> fst ` set al"
  by (simp add: map_of_eq_None_iff)

lemma inserts_Nil_keys: "fst ` set (inserts [] kvs) = fst ` set kvs"
  using inserts_keys [of "[]" kvs] by simp

lemma inserts_Nil_values: "snd ` set (inserts [] kvs) \<subseteq> snd ` set kvs"
  using inserts_values [of "[]" kvs] by simp

section \<open>What the collection builds\<close>

lemma collectWklds_shape:
  "collectWklds p ks ws tr st = Ok tr' st' \<Longrightarrow>
   unmanagedWkldMap st' =
     inserts (unmanagedWkldMap st)
       (map (\<lambda>w. (FQDN p @ Hostname w, \<lparr>pce = p, workload = w\<rparr>))
          (filter (\<lambda>w. Mode w = ''unmanaged'') ws))
   \<and> managedWkldMap st' =
     inserts (managedWkldMap st)
       (map (\<lambda>w. (FQDN p @ Hostname w, \<lparr>pce = p, workload = w\<rparr>))
          (filter (\<lambda>w. Mode w \<noteq> ''unmanaged'') ws))
   \<and> wkldImportCsvData st' =
     wkldImportCsvData st
       @ map (\<lambda>w. newRow ''managed ven on '' p
                    (w\<lparr>ExternalDataSet := Some ''wkld-replicate'',
                       ExternalDataReference := Some (FQDN p @ ''-managed-wkld-'' @ Href w)\<rparr>) ks)
           (filter (\<lambda>w. Mode w \<noteq> ''unmanaged'') ws)
   \<and> (\<forall>w \<in> set ws. Hostname w \<noteq> [])"
proof (induction ws arbitrary: st)
  case Nil
  then show ?case by simp
next
  case (Cons w ws)
  from Cons.prems have h: "Hostname w \<noteq> []"
    and c: "collectWklds p ks ws tr (collectOne p ks w st) = Ok tr' st'"
    by (auto simp: LogError_def split: if_splits)
  from Cons.IH [OF c] h show ?case
    by (cases "Mode w = ''unmanaged''") (simp_all add: collectOne_def Let_def)
qed

lemma entryOf_fun:
  "entryOf q ws = (\<lambda>w. (FQDN q @ Hostname w, \<lparr>pce = q\<lparr>WorkloadsSlice := ws\<rparr>, workload = w\<rparr>))"
  by (simp add: entryOf_def fun_eq_iff)

lemma managedRow_fun:
  "managedRow ks q ws =
     (\<lambda>w. newRow ''managed ven on '' (q\<lparr>WorkloadsSlice := ws\<rparr>)
       (w\<lparr>ExternalDataSet := Some ''wkld-replicate'',
          ExternalDataReference := Some (FQDN q @ ''-managed-wkld-'' @ Href w)\<rparr>) ks)"
  by (simp add: managedRow_def fun_eq_iff)

lemma entryOf_simps [simp]:
  "fst (entryOf q ws w) = FQDN q @ Hostname w"
  "pce (snd (entryOf q ws w)) = q\<lparr>WorkloadsSlice := ws\<rparr>"
  "workload (snd (entryOf q ws w)) = w"
  by (simp_all add: entryOf_def)

lemma collect_shape:
  "collect wd skipMap ks ps tr st = Ok tr' st' \<Longrightarrow>
   unmanagedWkldMap st' =
     inserts (unmanagedWkldMap st)
       (concat (map (\<lambda>q. map (entryOf q (wkldsOf wd q)) (unmanagedOf wd q))
                 (sourcesOf skipMap ps)))
   \<and> managedWkldMap st' =
     inserts (managedWkldMap st)
       (concat (map (\<lambda>q. map (entryOf q (wkldsOf wd q)) (managedOf wd q))
                 (sourcesOf skipMap ps)))
   \<and> wkldImportCsvData st' =
     wkldImportCsvData st
       @ concat (map (\<lambda>q. map (managedRow ks q (wkldsOf wd q)) (managedOf wd q))
                  (sourcesOf skipMap ps))
   \<and> (\<forall>q \<in> set (sourcesOf skipMap ps).
         GetWklds wd q = Inr (wkldsOf wd q) \<and> (\<forall>w \<in> set (wkldsOf wd q). Hostname w \<noteq> []))"
proof (induction ps arbitrary: tr st)
  case Nil
  then show ?case by (simp add: sourcesOf_def)
next
  case (Cons p ps)
  show ?case
  proof (cases "skipMap (FriendlyName p)")
    case True
    with Cons.prems have "collect wd skipMap ks ps tr st = Ok tr' st'" by simp
    from Cons.IH [OF this] True show ?thesis by (simp add: sourcesOf_def)
  next
    case False
    let ?st1 = "st\<lparr>deleteHrefMap := (deleteHrefMap st)(FQDN p \<mapsto> [])\<rparr>"
    let ?tr1 = "tr @ [GetWkldsCall (FQDN p)]"
    from Cons.prems False obtain ws t st2 where
      g: "GetWklds wd p = Inr ws"
      and c: "collectWklds (p\<lparr>WorkloadsSlice := ws\<rparr>) ks ws ?tr1 ?st1 = Ok t st2"
      and rest: "collect wd skipMap ks ps t st2 = Ok tr' st'"
      by (auto simp: Let_def LogError_def split: sum.splits result.splits)
    have w: "wkldsOf wd p = ws" using g by (simp add: wkldsOf_def)
    have src: "sourcesOf skipMap (p # ps) = p # sourcesOf skipMap ps"
      using False by (simp add: sourcesOf_def)
    from collectWklds_shape [OF c]
    have u2: "unmanagedWkldMap st2 =
        inserts (unmanagedWkldMap st) (map (entryOf p (wkldsOf wd p)) (unmanagedOf wd p))"
      and m2: "managedWkldMap st2 =
        inserts (managedWkldMap st) (map (entryOf p (wkldsOf wd p)) (managedOf wd p))"
      and r2: "wkldImportCsvData st2 =
        wkldImportCsvData st @ map (managedRow ks p (wkldsOf wd p)) (managedOf wd p)"
      and h2: "\<forall>w \<in> set ws. Hostname w \<noteq> []"
      by (simp_all add: w entryOf_fun unmanagedOf_def managedOf_def managedRow_fun)
    from Cons.IH [OF rest] show ?thesis
      by (simp add: src u2 m2 r2 inserts_append g w h2)
  qed
qed

section \<open>What the second phase adds\<close>

lemma staleIn_reconcileOne [simp]: "staleIn (reconcileOne ks st wk) f w = staleIn st f w"
  by (simp add: staleIn_def)

lemma staleIn_cong: "managedWkldMap s = managedWkldMap st \<Longrightarrow> unmanagedWkldMap s = unmanagedWkldMap st
   \<Longrightarrow> staleIn s f w = staleIn st f w"
  by (simp add: staleIn_def)

lemma reconcileOne_shape:
  "reconcileOne ks st wk =
     (if staleIn st (FQDN (pce wk)) (workload wk) then scheduleDelete wk st
      else st\<lparr>wkldImportCsvData := wkldImportCsvData st
                 @ (case upsertRow ks wk of None \<Rightarrow> [] | Some r \<Rightarrow> [r])\<rparr>)"
  by (simp add: reconcileOne_def staleIn_def upsertRow_def stamped_def Let_def)

lemma upsertRow_stale: "staleIn st (FQDN (pce wk)) (workload wk) \<Longrightarrow> upsertRow ks wk = None"
  by (simp add: staleIn_def upsertRow_def Let_def)

lemma foldl_reconcileOne_shape:
  "wkldDeleteCsvdata (foldl (reconcileOne ks) st xs) =
     wkldDeleteCsvdata st
       @ map deleteRow (filter (\<lambda>wk. staleIn st (FQDN (pce wk)) (workload wk)) xs)
   \<and> wkldImportCsvData (foldl (reconcileOne ks) st xs) =
     wkldImportCsvData st @ List.map_filter (upsertRow ks) xs
   \<and> (\<forall>f. hrefsOf (deleteHrefMap (foldl (reconcileOne ks) st xs)) f =
        hrefsOf (deleteHrefMap st) f
          @ map (\<lambda>wk. Href (workload wk))
              (filter (\<lambda>wk. staleIn st (FQDN (pce wk)) (workload wk) \<and> FQDN (pce wk) = f) xs))"
proof (induction xs arbitrary: st)
  case Nil
  show ?case by (simp add: List.map_filter_simps)
next
  case (Cons wk xs)
  let ?s = "reconcileOne ks st wk"
  have same: "staleIn ?s f w = staleIn st f w" for f w by simp
  show ?case
  proof (cases "staleIn st (FQDN (pce wk)) (workload wk)")
    case True
    then have s: "?s = scheduleDelete wk st" by (simp add: reconcileOne_shape)
    show ?thesis
      using Cons.IH [of ?s] True upsertRow_stale [OF True, of ks]
      by (simp add: same List.map_filter_simps) (simp add: s scheduleDelete_def deleteRow_def hrefsOf_def)
  next
    case False
    then have s: "?s = st\<lparr>wkldImportCsvData := wkldImportCsvData st
                 @ (case upsertRow ks wk of None \<Rightarrow> [] | Some r \<Rightarrow> [r])\<rparr>"
      by (simp add: reconcileOne_shape)
    show ?thesis
      using Cons.IH [of ?s] False
      by (simp add: same List.map_filter_simps) (simp add: s split: option.splits)
  qed
qed

section \<open>Delimiters\<close>

lemma HasPrefix_append [simp]: "HasPrefix (p @ s) p"
  by (induction p) simp_all

lemma HasPrefix_append_long: "length p \<le> length s \<Longrightarrow> HasPrefix (s @ x) p = HasPrefix s p"
  by (induction s p rule: HasPrefix.induct) simp_all

lemma Contains_HasPrefix: "HasPrefix s sub \<Longrightarrow> Contains s sub"
  by (cases s; cases sub) simp_all

lemma Contains_append_left: "Contains s sub \<Longrightarrow> Contains (a @ s) sub"
  by (induction a) simp_all

lemma Contains_mid: "Contains (a @ sep @ b) sep"
  by (rule Contains_append_left) (simp add: Contains_HasPrefix)

lemma SplitFirst_extend:
  "SplitFirst (a @ sep) sep = a \<Longrightarrow> SplitFirst (a @ sep @ x) sep = a"
proof (induction a)
  case Nil
  show ?case by (cases "sep @ x") (simp_all, metis HasPrefix_append)
next
  case (Cons c a)
  from Cons.prems have np: "\<not> HasPrefix ((c # a) @ sep) sep"
    by (auto split: if_splits)
  with Cons.prems have "SplitFirst (a @ sep) sep = a" by simp
  from Cons.IH [OF this] have ih: "SplitFirst (a @ sep @ x) sep = a" .
  have "HasPrefix (((c # a) @ sep) @ x) sep = HasPrefix ((c # a) @ sep) sep"
    by (rule HasPrefix_append_long) simp
  with np have "\<not> HasPrefix (c # a @ sep @ x) sep" by simp
  with ih show ?case by simp
qed

section \<open>The maps and batches of a plan, by workload\<close>

lemma plan_shape:
  assumes "makePlan cfg wd = Ok tr pl"
  shows "unmanagedWkldMap (planState pl) =
           inserts [] (concat (map (\<lambda>q. map (entryOf q (wkldsOf wd q)) (unmanagedOf wd q))
                                (sourcesOf (planSkip pl) (planPces pl))))"
    and "managedWkldMap (planState pl) =
           inserts [] (concat (map (\<lambda>q. map (entryOf q (wkldsOf wd q)) (managedOf wd q))
                                (sourcesOf (planSkip pl) (planPces pl))))"
    and "wkldDeleteCsvdata (planState pl) =
           [''href'', ''pce_fqdn'', ''pce_name'']
             # map deleteRow
                 (filter (\<lambda>wk. staleIn (planState pl) (FQDN (pce wk)) (workload wk))
                    (map snd (unmanagedWkldMap (planState pl))))"
    and "hrefsOf (deleteHrefMap (planState pl)) f =
           map (\<lambda>wk. Href (workload wk))
             (filter (\<lambda>wk. staleIn (planState pl) (FQDN (pce wk)) (workload wk) \<and> FQDN (pce wk) = f)
                (map snd (unmanagedWkldMap (planState pl))))"
    and "wkldImportCsvData (planState pl) =
           headerRow (planKeys pl)
             # concat (map (\<lambda>q. map (managedRow (planKeys pl) q (wkldsOf wd q)) (managedOf wd q))
                         (sourcesOf (planSkip pl) (planPces pl)))
             @ List.map_filter (upsertRow (planKeys pl)) (map snd (unmanagedWkldMap (planState pl)))"
    and "\<forall>q \<in> set (sourcesOf (planSkip pl) (planPces pl)).
           GetWklds wd q = Inr (wkldsOf wd q) \<and> (\<forall>w \<in> set (wkldsOf wd q). Hostname w \<noteq> [])"
proof -
  from makePlan_Ok [OF assms] obtain tr3 st where
    c: "collect wd (planSkip pl) (planKeys pl) (planPces pl) tr3 (initState (planKeys pl)) = Ok tr st"
    and s: "planState pl = reconcile (planKeys pl) st"
    by blast
  let ?ks = "planKeys pl"
  let ?xs = "map snd (unmanagedWkldMap st)"
  have s': "planState pl = foldl (reconcileOne ?ks) st ?xs" by (simp add: s reconcile_def)
  have um: "unmanagedWkldMap (planState pl) = unmanagedWkldMap st"
    and mm: "managedWkldMap (planState pl) = managedWkldMap st"
    by (simp_all add: s')
  have stale: "staleIn (planState pl) g w = staleIn st g w" for g w
    by (rule staleIn_cong [OF mm um])
  from collect_shape [OF c]
  have u: "unmanagedWkldMap st =
           inserts [] (concat (map (\<lambda>q. map (entryOf q (wkldsOf wd q)) (unmanagedOf wd q))
                                (sourcesOf (planSkip pl) (planPces pl))))"
    and m: "managedWkldMap st =
           inserts [] (concat (map (\<lambda>q. map (entryOf q (wkldsOf wd q)) (managedOf wd q))
                                (sourcesOf (planSkip pl) (planPces pl))))"
    and r: "wkldImportCsvData st = headerRow ?ks
             # concat (map (\<lambda>q. map (managedRow ?ks q (wkldsOf wd q)) (managedOf wd q))
                         (sourcesOf (planSkip pl) (planPces pl)))"
    and g: "\<forall>q \<in> set (sourcesOf (planSkip pl) (planPces pl)).
           GetWklds wd q = Inr (wkldsOf wd q) \<and> (\<forall>w \<in> set (wkldsOf wd q). Hostname w \<noteq> [])"
    by (simp_all add: initState_def)
  from collect_inv [OF c]
  have d: "wkldDeleteCsvdata st = [[''href'', ''pce_fqdn'', ''pce_name'']]"
    and h: "hrefsOf (deleteHrefMap st) f = []"
    by (simp_all add: initState_def hrefsOf_def)
  note sh = foldl_reconcileOne_shape [of ?ks st ?xs]
  show "unmanagedWkldMap (planState pl) =
           inserts [] (concat (map (\<lambda>q. map (entryOf q (wkldsOf wd q)) (unmanagedOf wd q))
                                (sourcesOf (planSkip pl) (planPces pl))))"
    using u um by simp
  show "managedWkldMap (planState pl) =
           inserts [] (concat (map (\<lambda>q. map (entryOf q (wkldsOf wd q)) (managedOf wd q))
                                (sourcesOf (planSkip pl) (planPces pl))))"
    using m mm by simp
  show "wkldDeleteCsvdata (planState pl) =
           [''href'', ''pce_fqdn'', ''pce_name'']
             # map deleteRow
                 (filter (\<lambda>wk. staleIn (planState pl) (FQDN (pce wk)) (workload wk))
                    (map snd (unmanagedWkldMap (planState pl))))"
    using sh d by (simp add: s' [symmetric] um stale)
  show "hrefsOf (deleteHrefMap (planState pl)) f =
           map (\<lambda>wk. Href (workload wk))
             (filter (\<lambda>wk. staleIn (planState pl) (FQDN (pce wk)) (workload wk) \<and> FQDN (pce wk) = f)
                (map snd (unmanagedWkldMap (planState pl))))"
    using sh h by (simp add: s' [symmetric] um stale)
  show "wkldImportCsvData (planState pl) =
           headerRow (planKeys pl)
             # concat (map (\<lambda>q. map (managedRow (planKeys pl) q (wkldsOf wd q)) (managedOf wd q))
                         (sourcesOf (planSkip pl) (planPces pl)))
             @ List.map_filter (upsertRow (planKeys pl)) (map snd (unmanagedWkldMap (planState pl)))"
    using sh r by (simp add: s' [symmetric] um)
  show "\<forall>q \<in> set (sourcesOf (planSkip pl) (planPces pl)).
           GetWklds wd q = Inr (wkldsOf wd q) \<and> (\<forall>w \<in> set (wkldsOf wd q). Hostname w \<noteq> [])"
    using g .
qed

lemma getPces_world:
  "GetPCEbyName wd' = GetPCEbyName wd \<Longrightarrow> getPces wd' ns tr ps m = getPces wd ns tr ps m"
  by (induction ns arbitrary: tr ps m) (simp_all split: sum.splits)

lemma getLabelKeys_world:
  "GetLabelDimensions wd' = GetLabelDimensions wd \<Longrightarrow> getLabelKeys wd' ps tr = getLabelKeys wd ps tr"
  by (simp add: getLabelKeys_def split: list.splits)

lemma plan_same_config:
  assumes "makePlan cfg wd = Ok tr pl" and "makePlan cfg wd' = Ok tr' pl'"
    and "GetPCEbyName wd' = GetPCEbyName wd" and "GetLabelDimensions wd' = GetLabelDimensions wd"
  shows "planPces pl' = planPces pl \<and> planSkip pl' = planSkip pl \<and> planKeys pl' = planKeys pl"
proof -
  from makePlan_Ok [OF assms(1)] obtain tr1 tr2 tr3 pceNameMap where
    a: "getPces wd (SplitComma (RemoveSpaces (pceList cfg)))
             [LogInfo ''getting pces and labels...''] [] (\<lambda>_. False) = Ok tr1 (planPces pl, pceNameMap)"
    and b: "(if skipSources cfg \<noteq> []
              then checkSkips (SplitComma (RemoveSpaces (skipSources cfg))) pceNameMap tr1
                     (\<lambda>_. False)
              else Ok tr1 (\<lambda>_. False)) = Ok tr2 (planSkip pl)"
    and c: "getLabelKeys wd (planPces pl) tr2 = Ok tr3 (planKeys pl)"
    by blast
  from makePlan_Ok [OF assms(2)] obtain tr1' tr2' tr3' pceNameMap' where
    a': "getPces wd' (SplitComma (RemoveSpaces (pceList cfg)))
             [LogInfo ''getting pces and labels...''] [] (\<lambda>_. False) = Ok tr1' (planPces pl', pceNameMap')"
    and b': "(if skipSources cfg \<noteq> []
              then checkSkips (SplitComma (RemoveSpaces (skipSources cfg))) pceNameMap' tr1'
                     (\<lambda>_. False)
              else Ok tr1' (\<lambda>_. False)) = Ok tr2' (planSkip pl')"
    and c': "getLabelKeys wd' (planPces pl') tr2' = Ok tr3' (planKeys pl')"
    by blast
  from a a' have 1: "planPces pl' = planPces pl" "pceNameMap' = pceNameMap" "tr1' = tr1"
    by (simp_all add: getPces_world [OF assms(3)])
  have "Ok tr2' (planSkip pl') = Ok tr2 (planSkip pl)"
    using b b' unfolding 1 by simp
  then have 2: "planSkip pl' = planSkip pl \<and> tr2' = tr2" by simp
  have "Ok tr3' (planKeys pl') = Ok tr3 (planKeys pl)"
    using c c' 1 2 by (simp add: getLabelKeys_world [OF assms(4)])
  then have 3: "planKeys pl' = planKeys pl" by simp
  from 1 2 3 show ?thesis by simp
qed

lemma in_map_filter: "r \<in> set (List.map_filter f xs) \<longleftrightarrow> (\<exists>x \<in> set xs. f x = Some r)"
  by (induction xs) (auto split: option.splits)

lemma in_concat_entries:
  "kv \<in> set (concat (map (\<lambda>q. map (entryOf q (W q)) (L q)) src)) \<longleftrightarrow>
   (\<exists>q \<in> set src. \<exists>w \<in> set (L q). kv = entryOf q (W q) w)"
  by (induction src) auto

lemma fst_concat_entries:
  "map fst (concat (map (\<lambda>q. map (entryOf q (W q)) (L q)) src)) =
   concat (map (\<lambda>q. map (\<lambda>w. FQDN q @ Hostname w) (L q)) src)"
  by (induction src) simp_all

lemma keys_concat:
  "k \<in> fst ` set (concat (map (\<lambda>q. map (entryOf q (W q)) (L q)) src)) \<longleftrightarrow>
   (\<exists>q \<in> set src. \<exists>w \<in> set (L q). k = FQDN q @ Hostname w)"
proof
  assume "k \<in> fst ` set (concat (map (\<lambda>q. map (entryOf q (W q)) (L q)) src))"
  then obtain kv where "kv \<in> set (concat (map (\<lambda>q. map (entryOf q (W q)) (L q)) src))" "k = fst kv"
    by blast
  then obtain q w where "q \<in> set src" "w \<in> set (L q)" "kv = entryOf q (W q) w"
    unfolding in_concat_entries by blast
  then show "\<exists>q \<in> set src. \<exists>w \<in> set (L q). k = FQDN q @ Hostname w"
    using \<open>k = fst kv\<close> by auto
next
  assume "\<exists>q \<in> set src. \<exists>w \<in> set (L q). k = FQDN q @ Hostname w"
  then obtain q w where q: "q \<in> set src" and w: "w \<in> set (L q)" and k: "k = FQDN q @ Hostname w"
    by blast
  have "entryOf q (W q) w \<in> set (concat (map (\<lambda>q. map (entryOf q (W q)) (L q)) src))"
    unfolding in_concat_entries using q w by blast
  then have "fst (entryOf q (W q) w) \<in> fst ` set (concat (map (\<lambda>q. map (entryOf q (W q)) (L q)) src))"
    by (rule imageI)
  then show "k \<in> fst ` set (concat (map (\<lambda>q. map (entryOf q (W q)) (L q)) src))"
    using k by simp
qed

lemma plan_managed_keys:
  assumes "makePlan cfg wd = Ok tr pl"
  shows "(map_of (managedWkldMap (planState pl)) k \<noteq> None) =
         (\<exists>q \<in> set (planSources pl). \<exists>w \<in> set (managedOf wd q). k = FQDN q @ Hostname w)"
proof -
  have "(map_of (managedWkldMap (planState pl)) k \<noteq> None) =
        (k \<in> fst ` set (managedWkldMap (planState pl)))"
    by (simp add: map_of_None_keys)
  also have "\<dots> = (\<exists>q \<in> set (planSources pl). \<exists>w \<in> set (managedOf wd q). k = FQDN q @ Hostname w)"
    unfolding plan_shape(2) [OF assms] inserts_Nil_keys planSources_def by (rule keys_concat)
  finally show ?thesis .
qed

lemma plan_unmanaged_keys:
  assumes "makePlan cfg wd = Ok tr pl"
  shows "(map_of (unmanagedWkldMap (planState pl)) k \<noteq> None) =
         (\<exists>q \<in> set (planSources pl). \<exists>w \<in> set (unmanagedOf wd q). k = FQDN q @ Hostname w)"
proof -
  have "(map_of (unmanagedWkldMap (planState pl)) k \<noteq> None) =
        (k \<in> fst ` set (unmanagedWkldMap (planState pl)))"
    by (simp add: map_of_None_keys)
  also have "\<dots> = (\<exists>q \<in> set (planSources pl). \<exists>w \<in> set (unmanagedOf wd q). k = FQDN q @ Hostname w)"
    unfolding plan_shape(1) [OF assms] inserts_Nil_keys planSources_def by (rule keys_concat)
  finally show ?thesis .
qed

lemma plan_entries_sub:
  assumes "makePlan cfg wd = Ok tr pl"
    and "wk \<in> set (map snd (unmanagedWkldMap (planState pl)))"
  shows "\<exists>q \<in> set (planSources pl). \<exists>w \<in> set (unmanagedOf wd q).
           wk = snd (entryOf q (wkldsOf wd q) w)"
proof -
  from assms(2) have "wk \<in> snd ` set (unmanagedWkldMap (planState pl))" by simp
  then have "wk \<in> snd ` set (inserts [] (concat (map (\<lambda>q. map (entryOf q (wkldsOf wd q)) (unmanagedOf wd q))
                                (planSources pl))))"
    unfolding plan_shape(1) [OF assms(1)] planSources_def .
  then have "wk \<in> snd ` set (concat (map (\<lambda>q. map (entryOf q (wkldsOf wd q)) (unmanagedOf wd q))
                                (planSources pl)))"
    by (rule subsetD [OF inserts_Nil_values])
  then obtain kv where "kv \<in> set (concat (map (\<lambda>q. map (entryOf q (wkldsOf wd q)) (unmanagedOf wd q))
                                (planSources pl)))" and "wk = snd kv"
    by blast
  then obtain q w where "q \<in> set (planSources pl)" "w \<in> set (unmanagedOf wd q)"
    "kv = entryOf q (wkldsOf wd q) w" unfolding in_concat_entries by blast
  with \<open>wk = snd kv\<close> show ?thesis by blast
qed

lemma plan_entries_all:
  assumes "makePlan cfg wd = Ok tr pl"
    and "distinct (concat (map (\<lambda>q. map (\<lambda>w. FQDN q @ Hostname w) (unmanagedOf wd q))
                           (planSources pl)))"
    and "q \<in> set (planSources pl)" and "w \<in> set (unmanagedOf wd q)"
  shows "snd (entryOf q (wkldsOf wd q) w) \<in> set (map snd (unmanagedWkldMap (planState pl)))"
proof -
  let ?kvs = "concat (map (\<lambda>q. map (entryOf q (wkldsOf wd q)) (unmanagedOf wd q)) (planSources pl))"
  have "map fst ?kvs = concat (map (\<lambda>q. map (\<lambda>w. FQDN q @ Hostname w) (unmanagedOf wd q))
                           (planSources pl))"
    by (rule fst_concat_entries)
  with assms(2) have "distinct (map fst ([] @ ?kvs))" by simp
  from inserts_distinct [OF this] have "inserts [] ?kvs = ?kvs" by simp
  then have eq: "unmanagedWkldMap (planState pl) = ?kvs"
    unfolding plan_shape(1) [OF assms(1)] planSources_def .
  have "entryOf q (wkldsOf wd q) w \<in> set ?kvs"
    unfolding in_concat_entries using assms(3,4) by blast
  then have "snd (entryOf q (wkldsOf wd q) w) \<in> snd ` set ?kvs"
    by (rule imageI)
  then show ?thesis by (simp add: eq)
qed

lemma plan_scheduled:
  assumes "makePlan cfg wd = Ok tr pl"
    and "h \<in> set (hrefsOf (deleteHrefMap (planState pl)) f)"
  shows "\<exists>q \<in> set (planSources pl). \<exists>d \<in> set (unmanagedOf wd q).
           staleIn (planState pl) (FQDN q) d \<and> FQDN q = f \<and> Href d = h"
proof -
  from assms(2) have "h \<in> (\<lambda>wk. Href (workload wk)) `
      set (filter (\<lambda>wk. staleIn (planState pl) (FQDN (pce wk)) (workload wk) \<and> FQDN (pce wk) = f)
                (map snd (unmanagedWkldMap (planState pl))))"
    unfolding plan_shape(4) [OF assms(1)] by simp
  then obtain wk where "wk \<in> set (filter (\<lambda>wk. staleIn (planState pl) (FQDN (pce wk)) (workload wk) \<and> FQDN (pce wk) = f)
                (map snd (unmanagedWkldMap (planState pl))))" and h: "Href (workload wk) = h"
    by blast
  then have wk: "wk \<in> set (map snd (unmanagedWkldMap (planState pl)))"
    and st: "staleIn (planState pl) (FQDN (pce wk)) (workload wk)"
    and f: "FQDN (pce wk) = f"
    by auto
  from plan_entries_sub [OF assms(1) wk] obtain q w where
    "q \<in> set (planSources pl)" "w \<in> set (unmanagedOf wd q)" "wk = snd (entryOf q (wkldsOf wd q) w)"
    by blast
  with st f h show ?thesis by (intro bexI [of _ q] bexI [of _ w]) simp_all
qed

lemma plan_scheduled_conv:
  assumes "makePlan cfg wd = Ok tr pl"
    and "distinct (concat (map (\<lambda>q. map (\<lambda>w. FQDN q @ Hostname w) (unmanagedOf wd q))
                           (planSources pl)))"
    and "q \<in> set (planSources pl)" and "d \<in> set (unmanagedOf wd q)"
    and "staleIn (planState pl) (FQDN q) d"
  shows "Href d \<in> set (hrefsOf (deleteHrefMap (planState pl)) (FQDN q))
       \<and> 1 < length (wkldDeleteCsvdata (planState pl))"
proof -
  let ?wk = "snd (entryOf q (wkldsOf wd q) d)"
  let ?xs = "map snd (unmanagedWkldMap (planState pl))"
  have e: "?wk \<in> set ?xs" by (rule plan_entries_all [OF assms(1-4)])
  have s: "staleIn (planState pl) (FQDN (pce ?wk)) (workload ?wk)" using assms(5) by simp
  have "?wk \<in> set (filter (\<lambda>wk. staleIn (planState pl) (FQDN (pce wk)) (workload wk)
                              \<and> FQDN (pce wk) = FQDN q) ?xs)"
    using e s by simp
  then have "Href (workload ?wk) \<in> (\<lambda>wk. Href (workload wk)) `
      set (filter (\<lambda>wk. staleIn (planState pl) (FQDN (pce wk)) (workload wk)
                              \<and> FQDN (pce wk) = FQDN q) ?xs)"
    by (rule imageI)
  then have 1: "Href d \<in> set (hrefsOf (deleteHrefMap (planState pl)) (FQDN q))"
    unfolding plan_shape(4) [OF assms(1)] by simp
  let ?ys = "filter (\<lambda>wk. staleIn (planState pl) (FQDN (pce wk)) (workload wk)) ?xs"
  have "?wk \<in> set ?ys"
    using e s by simp
  then have "0 < length ?ys" by (cases ?ys) simp_all
  then have 2: "1 < length (wkldDeleteCsvdata (planState pl))"
    unfolding plan_shape(3) [OF assms(1)] by simp
  from 1 2 show ?thesis by simp
qed

lemma plan_rows:
  assumes "makePlan cfg wd = Ok tr pl"
    and "r \<in> set (tl (wkldImportCsvData (planState pl)))"
  shows "(\<exists>q \<in> set (planSources pl). \<exists>m \<in> set (managedOf wd q).
            r = managedRow (planKeys pl) q (wkldsOf wd q) m)
       \<or> (\<exists>q \<in> set (planSources pl). \<exists>u \<in> set (unmanagedOf wd q).
            upsertRow (planKeys pl) (snd (entryOf q (wkldsOf wd q) u)) = Some r)"
proof -
  from assms(2) have "r \<in> set (concat (map (\<lambda>q. map (managedRow (planKeys pl) q (wkldsOf wd q)) (managedOf wd q))
                         (planSources pl)))
      \<or> r \<in> set (List.map_filter (upsertRow (planKeys pl)) (map snd (unmanagedWkldMap (planState pl))))"
    unfolding plan_shape(5) [OF assms(1)] planSources_def by auto
  then show ?thesis
  proof
    assume "r \<in> set (concat (map (\<lambda>q. map (managedRow (planKeys pl) q (wkldsOf wd q)) (managedOf wd q))
                         (planSources pl)))"
    then show ?thesis by auto
  next
    assume "r \<in> set (List.map_filter (upsertRow (planKeys pl)) (map snd (unmanagedWkldMap (planState pl))))"
    then obtain wk where wk: "wk \<in> set (map snd (unmanagedWkldMap (planState pl)))"
      and u: "upsertRow (planKeys pl) wk = Some r"
      unfolding in_map_filter by blast
    from plan_entries_sub [OF assms(1) wk] u show ?thesis by blast
  qed
qed

section \<open>What the import and the deletes leave\<close>

lemma sameBut_refl [simp]: "sameBut w w"
  by (auto simp: sameBut_def intro: exI [of _ "Labels w"])

lemma sameBut_update [simp]: "sameBut w (w\<lparr>Labels := l\<rparr>)"
  by (auto simp: sameBut_def)

lemma sameBut_trans: "sameBut a b \<Longrightarrow> sameBut b c \<Longrightarrow> sameBut a c"
  by (auto simp: sameBut_def)

lemma sameBut_fields:
  "sameBut w w2 \<Longrightarrow> Href w2 = Href w \<and> Hostname w2 = Hostname w \<and> Mode w2 = Mode w
     \<and> ExternalDataSet w2 = ExternalDataSet w \<and> ExternalDataReference w2 = ExternalDataReference w"
  by (auto simp: sameBut_def)

lemma fromRow_sameBut: "fromRow n r w \<Longrightarrow> sameBut w w2 \<Longrightarrow> fromRow n r w2"
  by (auto simp: sameBut_def fromRow_def)

lemma importRow_old_or_new:
  assumes "w2 \<in> set (importRow side q n ws r)"
  shows "(\<exists>w \<in> set ws. sameBut w w2) \<or> fromRow n r w2"
proof (cases "list_ex (\<lambda>w. Hostname w = r ! 1) ws")
  case True
  with assms obtain w where w: "w \<in> set ws"
    and "w2 = (if Hostname w = r ! 1
               then w\<lparr>Labels := labelHrefs side q (take n (drop 3 r))\<rparr> else w)"
    by (auto simp: importRow_def)
  then have "sameBut w w2" by simp
  with w show ?thesis by blast
next
  case False
  with assms have "w2 \<in> set ws \<or> w2 = created side q n ws r"
    by (auto simp: importRow_def)
  then show ?thesis
  proof
    assume "w2 \<in> set ws"
    moreover have "sameBut w2 w2" by simp
    ultimately show ?thesis by blast
  next
    assume "w2 = created side q n ws r"
    then have "fromRow n r w2" by (simp add: created_def fromRow_def)
    then show ?thesis by simp
  qed
qed

lemma importRow_keeps:
  assumes "w \<in> set ws"
  shows "\<exists>w2 \<in> set (importRow side q n ws r). sameBut w w2"
proof (cases "list_ex (\<lambda>w. Hostname w = r ! 1) ws")
  case True
  let ?f = "\<lambda>w. if Hostname w = r ! 1
               then w\<lparr>Labels := labelHrefs side q (take n (drop 3 r))\<rparr> else w"
  have "?f w \<in> set (importRow side q n ws r)"
    using True assms by (simp add: importRow_def)
  moreover have "sameBut w (?f w)" by simp
  ultimately show ?thesis by blast
next
  case False
  then have "w \<in> set (importRow side q n ws r)"
    using assms by (simp add: importRow_def)
  moreover have "sameBut w w" by simp
  ultimately show ?thesis by blast
qed

lemma import_old_or_new:
  "w2 \<in> set (foldl (importRow side q n) ws rows) \<Longrightarrow>
   (\<exists>w \<in> set ws. sameBut w w2) \<or> (\<exists>r \<in> set rows. fromRow n r w2)"
proof (induction rows arbitrary: ws)
  case Nil
  then have "w2 \<in> set ws" by simp
  moreover have "sameBut w2 w2" by simp
  ultimately show ?case by blast
next
  case (Cons r rows)
  from Cons.IH [of "importRow side q n ws r"] Cons.prems
  have "(\<exists>w \<in> set (importRow side q n ws r). sameBut w w2) \<or> (\<exists>r \<in> set rows. fromRow n r w2)"
    by simp
  then show ?case
  proof
    assume "\<exists>w \<in> set (importRow side q n ws r). sameBut w w2"
    then obtain w1 where w1: "w1 \<in> set (importRow side q n ws r)" and s: "sameBut w1 w2" by blast
    from importRow_old_or_new [OF w1] show ?thesis
    proof
      assume "\<exists>w \<in> set ws. sameBut w w1"
      then show ?thesis using s sameBut_trans by blast
    next
      assume "fromRow n r w1"
      then have "fromRow n r w2" using s by (rule fromRow_sameBut)
      then show ?thesis by auto
    qed
  next
    assume "\<exists>r \<in> set rows. fromRow n r w2"
    then show ?thesis by auto
  qed
qed

lemma import_keeps:
  "w \<in> set ws \<Longrightarrow> \<exists>w2 \<in> set (foldl (importRow side q n) ws rows). sameBut w w2"
proof (induction rows arbitrary: ws w)
  case Nil
  then have "w \<in> set (foldl (importRow side q n) ws [])" by simp
  moreover have "sameBut w w" by simp
  ultimately show ?case by blast
next
  case (Cons r rows)
  from importRow_keeps [OF Cons.prems] obtain w1 where
    w1: "w1 \<in> set (importRow side q n ws r)" and s: "sameBut w w1" by blast
  from Cons.IH [OF w1] obtain w2 where
    "w2 \<in> set (foldl (importRow side q n) (importRow side q n ws r) rows)" and "sameBut w1 w2"
    by blast
  then show ?case using s sameBut_trans by auto
qed

lemma applied_old_or_new:
  assumes "w2 \<in> set (applied side pl q ws)"
  shows "(\<exists>w \<in> set ws. sameBut w w2)
       \<or> (\<exists>r \<in> set (tl (wkldImportCsvData (planState pl))). fromRow (length (planKeys pl)) r w2)"
proof -
  let ?st = "planState pl"
  let ?ws1 = "if 1 < length (wkldImportCsvData ?st)
                 then ImportWkldsFromCSV side q (length (planKeys pl)) (wkldImportCsvData ?st) ws
                 else ws"
  from assms have in1: "w2 \<in> set ?ws1"
    by (auto simp: applied_def Let_def removeHrefs_def split: if_splits)
  show ?thesis
  proof (cases "1 < length (wkldImportCsvData ?st)")
    case True
    with in1 have "w2 \<in> set (foldl (importRow side q (length (planKeys pl))) ws
                             (tl (wkldImportCsvData ?st)))"
      by (simp add: ImportWkldsFromCSV_def)
    from import_old_or_new [OF this] show ?thesis .
  next
    case False
    with in1 have "w2 \<in> set ws" by simp
    moreover have "sameBut w2 w2" by simp
    ultimately show ?thesis by blast
  qed
qed

lemma applied_keeps:
  assumes "w \<in> set ws" and "Href w \<notin> set (hrefsOf (deleteHrefMap (planState pl)) (FQDN q))"
  shows "\<exists>w2 \<in> set (applied side pl q ws). sameBut w w2"
proof -
  let ?st = "planState pl"
  let ?ws1 = "if 1 < length (wkldImportCsvData ?st)
                 then ImportWkldsFromCSV side q (length (planKeys pl)) (wkldImportCsvData ?st) ws
                 else ws"
  have "\<exists>w1 \<in> set ?ws1. sameBut w w1"
  proof (cases "1 < length (wkldImportCsvData ?st)")
    case True
    then show ?thesis
      using import_keeps [OF assms(1), of side q "length (planKeys pl)" "tl (wkldImportCsvData ?st)"]
      by (simp add: ImportWkldsFromCSV_def)
  next
    case False
    then have "w \<in> set ?ws1" using assms(1) by simp
    moreover have "sameBut w w" by simp
    ultimately show ?thesis by blast
  qed
  then obtain w1 where w1: "w1 \<in> set ?ws1" and s: "sameBut w w1" by blast
  then have "Href w1 = Href w" using sameBut_fields by blast
  with assms(2) w1 have "w1 \<in> set (applied side pl q ws)"
    by (auto simp: applied_def Let_def removeHrefs_def)
  with s show ?thesis by blast
qed

lemma applied_not_deleted:
  assumes "w2 \<in> set (applied side pl q ws)" and "1 < length (wkldDeleteCsvdata (planState pl))"
  shows "Href w2 \<notin> set (hrefsOf (deleteHrefMap (planState pl)) (FQDN q))"
  using assms by (auto simp: applied_def Let_def removeHrefs_def)

section \<open>The second run\<close>

lemma tidy_alt:
  "tidy wd pl \<longleftrightarrow>
     distinct (map FQDN (planSources pl))
     \<and> (\<forall>q \<in> set (planSources pl). distinct (map Href (wkldsOf wd q)))
     \<and> distinct (concat (map (\<lambda>q. map (\<lambda>w. FQDN q @ Hostname w) (unmanagedOf wd q))
                           (planSources pl)))
     \<and> (\<forall>q \<in> set (planSources pl).
          SplitFirst (FQDN q @ ''-managed-wkld-'') ''-managed-wkld-'' = FQDN q
          \<and> SplitFirst (FQDN q @ ''-unmanaged-wkld-'') ''-unmanaged-wkld-'' = FQDN q
          \<and> (\<forall>u \<in> set (unmanagedOf wd q).
                if PtrToStr (ExternalDataSet u) \<noteq> ''wkld-replicate''
                then \<not> Contains (FQDN q @ ''-unmanaged-wkld-'' @ Href u) ''-managed-wkld-''
                else FQDN q = SplitFirst (PtrToStr (ExternalDataReference u)) ''-unmanaged-wkld-''
                     \<longrightarrow> \<not> Contains (PtrToStr (ExternalDataReference u)) ''-managed-wkld-''))"
  by (simp add: tidy_def list_all_iff)

lemma noChains_alt:
  "noChains wd pl \<longleftrightarrow>
     (\<forall>q \<in> set (planSources pl). \<forall>d \<in> set (unmanagedOf wd q).
        staleIn (planState pl) (FQDN q) d \<longrightarrow>
        (\<forall>q' \<in> set (planSources pl). \<forall>w \<in> set (unmanagedOf wd q').
           Contains (PtrToStr (ExternalDataReference w)) ''-unmanaged-wkld-'' \<longrightarrow>
           SplitFirst (PtrToStr (ExternalDataReference w)) ''-unmanaged-wkld-'' @ Hostname w
             \<noteq> FQDN q @ Hostname d))"
  by (simp add: noChains_def list_all_iff)

lemma tidy_addresses: "tidy wd pl \<Longrightarrow> q \<in> set (planSources pl) \<Longrightarrow> q' \<in> set (planSources pl)
    \<Longrightarrow> FQDN q' = FQDN q \<Longrightarrow> q' = q"
  by (auto simp: tidy_alt distinct_map dest: inj_onD)

lemma tidy_hrefs: "tidy wd pl \<Longrightarrow> q \<in> set (planSources pl) \<Longrightarrow> w \<in> set (wkldsOf wd q)
    \<Longrightarrow> w' \<in> set (wkldsOf wd q) \<Longrightarrow> Href w' = Href w \<Longrightarrow> w' = w"
  by (auto simp: tidy_alt distinct_map dest: inj_onD)

lemma tidy_keys: "tidy wd pl \<Longrightarrow>
    distinct (concat (map (\<lambda>q. map (\<lambda>w. FQDN q @ Hostname w) (unmanagedOf wd q)) (planSources pl)))"
  by (simp add: tidy_alt)

lemma tidy_split:
  assumes "tidy wd pl" and "q \<in> set (planSources pl)"
  shows "SplitFirst (FQDN q @ ''-managed-wkld-'' @ x) ''-managed-wkld-'' = FQDN q"
    and "SplitFirst (FQDN q @ ''-unmanaged-wkld-'' @ x) ''-unmanaged-wkld-'' = FQDN q"
proof -
  from assms have m: "SplitFirst (FQDN q @ ''-managed-wkld-'') ''-managed-wkld-'' = FQDN q"
    and u: "SplitFirst (FQDN q @ ''-unmanaged-wkld-'') ''-unmanaged-wkld-'' = FQDN q"
    unfolding tidy_alt by blast+
  show "SplitFirst (FQDN q @ ''-managed-wkld-'' @ x) ''-managed-wkld-'' = FQDN q"
    using m by (rule SplitFirst_extend)
  show "SplitFirst (FQDN q @ ''-unmanaged-wkld-'' @ x) ''-unmanaged-wkld-'' = FQDN q"
    using u by (rule SplitFirst_extend)
qed

lemma tidy_refs:
  assumes "tidy wd pl" and "q \<in> set (planSources pl)" and "u \<in> set (unmanagedOf wd q)"
  shows "PtrToStr (ExternalDataSet u) \<noteq> ''wkld-replicate'' \<Longrightarrow>
           \<not> Contains (FQDN q @ ''-unmanaged-wkld-'' @ Href u) ''-managed-wkld-''"
    and "PtrToStr (ExternalDataSet u) = ''wkld-replicate'' \<Longrightarrow>
         FQDN q = SplitFirst (PtrToStr (ExternalDataReference u)) ''-unmanaged-wkld-'' \<Longrightarrow>
           \<not> Contains (PtrToStr (ExternalDataReference u)) ''-managed-wkld-''"
proof -
  from assms have *: "if PtrToStr (ExternalDataSet u) \<noteq> ''wkld-replicate''
                then \<not> Contains (FQDN q @ ''-unmanaged-wkld-'' @ Href u) ''-managed-wkld-''
                else FQDN q = SplitFirst (PtrToStr (ExternalDataReference u)) ''-unmanaged-wkld-''
                     \<longrightarrow> \<not> Contains (PtrToStr (ExternalDataReference u)) ''-managed-wkld-''"
    unfolding tidy_alt by blast
  show "PtrToStr (ExternalDataSet u) \<noteq> ''wkld-replicate'' \<Longrightarrow>
           \<not> Contains (FQDN q @ ''-unmanaged-wkld-'' @ Href u) ''-managed-wkld-''"
    using * by (simp split: if_splits)
  show "PtrToStr (ExternalDataSet u) = ''wkld-replicate'' \<Longrightarrow>
         FQDN q = SplitFirst (PtrToStr (ExternalDataReference u)) ''-unmanaged-wkld-'' \<Longrightarrow>
           \<not> Contains (PtrToStr (ExternalDataReference u)) ''-managed-wkld-''"
    using * by (simp split: if_splits)
qed

lemma unmanagedOf_iff: "w \<in> set (unmanagedOf wd q) \<longleftrightarrow> w \<in> set (wkldsOf wd q) \<and> Mode w = ''unmanaged''"
  by (simp add: unmanagedOf_def)

lemma managedOf_iff: "w \<in> set (managedOf wd q) \<longleftrightarrow> w \<in> set (wkldsOf wd q) \<and> Mode w \<noteq> ''unmanaged''"
  by (simp add: managedOf_def)

lemma second_config:
  assumes "makePlan cfg wd = Ok tr pl" and "makePlan cfg (nextWorld side pl0 wd) = Ok tr2 pl2"
  shows "planSources pl2 = planSources pl" and "planKeys pl2 = planKeys pl"
proof -
  have "GetPCEbyName (nextWorld side pl0 wd) = GetPCEbyName wd"
    and "GetLabelDimensions (nextWorld side pl0 wd) = GetLabelDimensions wd"
    by (simp_all add: nextWorld_def)
  from plan_same_config [OF assms this]
  show "planSources pl2 = planSources pl" and "planKeys pl2 = planKeys pl"
    by (simp_all add: planSources_def)
qed

lemma second_wklds:
  assumes "makePlan cfg wd = Ok tr pl" and "q \<in> set (planSources pl)"
  shows "wkldsOf (nextWorld side pl0 wd) q = applied side pl0 q (wkldsOf wd q)"
proof -
  from plan_shape(6) [OF assms(1)] assms(2) have "GetWklds wd q = Inr (wkldsOf wd q)"
    unfolding planSources_def by blast
  then obtain ws where g: "GetWklds wd q = Inr ws" by blast
  then show ?thesis by (simp add: nextWorld_def wkldsOf_def)
qed

lemma not_scheduled:
  assumes "makePlan cfg wd = Ok tr pl" and "tidy wd pl"
    and "q \<in> set (planSources pl)" and "w \<in> set (wkldsOf wd q)"
    and "\<not> (Mode w = ''unmanaged'' \<and> staleIn (planState pl) (FQDN q) w)"
  shows "Href w \<notin> set (hrefsOf (deleteHrefMap (planState pl)) (FQDN q))"
proof
  assume "Href w \<in> set (hrefsOf (deleteHrefMap (planState pl)) (FQDN q))"
  from plan_scheduled [OF assms(1) this] obtain q' d where
    q': "q' \<in> set (planSources pl)" and d: "d \<in> set (unmanagedOf wd q')"
    and st: "staleIn (planState pl) (FQDN q') d" and f: "FQDN q' = FQDN q" and h: "Href d = Href w"
    by blast
  have qq: "q' = q" by (rule tidy_addresses [OF assms(2,3) q' f])
  from d qq have dw: "d \<in> set (wkldsOf wd q)" and dm: "Mode d = ''unmanaged''"
    by (simp_all add: unmanagedOf_iff)
  have "d = w" by (rule tidy_hrefs [OF assms(2,3,4) dw h])
  with st dm qq assms(5) show False by simp
qed

lemma survives:
  assumes "makePlan cfg wd = Ok tr pl" and "tidy wd pl"
    and "q \<in> set (planSources pl)" and "w \<in> set (wkldsOf wd q)"
    and "\<not> (Mode w = ''unmanaged'' \<and> staleIn (planState pl) (FQDN q) w)"
  shows "\<exists>w2 \<in> set (wkldsOf (nextWorld side pl wd) q). sameBut w w2"
  unfolding second_wklds [OF assms(1,3)]
  by (rule applied_keeps [OF assms(4) not_scheduled [OF assms]])

lemma managed_keys_persist:
  assumes "makePlan cfg wd = Ok tr pl" and "makePlan cfg (nextWorld side pl wd) = Ok tr2 pl2"
    and "tidy wd pl" and "map_of (managedWkldMap (planState pl)) k \<noteq> None"
  shows "map_of (managedWkldMap (planState pl2)) k \<noteq> None"
proof -
  from assms(4) obtain q w where q: "q \<in> set (planSources pl)" and w: "w \<in> set (managedOf wd q)"
    and k: "k = FQDN q @ Hostname w"
    unfolding plan_managed_keys [OF assms(1)] by blast
  from w have ww: "w \<in> set (wkldsOf wd q)" and m: "Mode w \<noteq> ''unmanaged''"
    by (simp_all add: managedOf_iff)
  from m have "\<not> (Mode w = ''unmanaged'' \<and> staleIn (planState pl) (FQDN q) w)" by simp
  from survives [OF assms(1,3) q ww this] obtain w2 where
    w2: "w2 \<in> set (wkldsOf (nextWorld side pl wd) q)" and s: "sameBut w w2" by blast
  from sameBut_fields [OF s] m have "Mode w2 \<noteq> ''unmanaged''" and hh: "Hostname w2 = Hostname w"
    by simp_all
  with w2 have "w2 \<in> set (managedOf (nextWorld side pl wd) q)" by (simp add: managedOf_iff)
  moreover have "q \<in> set (planSources pl2)" using q second_config(1) [OF assms(1,2)] by simp
  ultimately have "\<exists>q \<in> set (planSources pl2). \<exists>w \<in> set (managedOf (nextWorld side pl wd) q).
      k = FQDN q @ Hostname w"
    using k hh by (intro bexI [of _ q] bexI [of _ w2]) simp_all
  then show ?thesis unfolding plan_managed_keys [OF assms(2)] .
qed

lemma unmanaged_key_persists:
  assumes "makePlan cfg wd = Ok tr pl" and "makePlan cfg (nextWorld side pl wd) = Ok tr2 pl2"
    and "tidy wd pl" and "q \<in> set (planSources pl)" and "u \<in> set (unmanagedOf wd q)"
    and "\<not> staleIn (planState pl) (FQDN q) u"
  shows "map_of (unmanagedWkldMap (planState pl2)) (FQDN q @ Hostname u) \<noteq> None"
proof -
  from assms(5) have uu: "u \<in> set (wkldsOf wd q)" and m: "Mode u = ''unmanaged''"
    by (simp_all add: unmanagedOf_iff)
  from assms(6) have "\<not> (Mode u = ''unmanaged'' \<and> staleIn (planState pl) (FQDN q) u)" by simp
  from survives [OF assms(1,3,4) uu this] obtain w2 where
    w2: "w2 \<in> set (wkldsOf (nextWorld side pl wd) q)" and s: "sameBut u w2" by blast
  from sameBut_fields [OF s] m have "Mode w2 = ''unmanaged''" and hh: "Hostname w2 = Hostname u"
    by simp_all
  with w2 have "w2 \<in> set (unmanagedOf (nextWorld side pl wd) q)" by (simp add: unmanagedOf_iff)
  moreover have "q \<in> set (planSources pl2)" using assms(4) second_config(1) [OF assms(1,2)] by simp
  ultimately have "\<exists>q' \<in> set (planSources pl2). \<exists>w \<in> set (unmanagedOf (nextWorld side pl wd) q').
      FQDN q @ Hostname u = FQDN q' @ Hostname w"
    using hh by (intro bexI [of _ q] bexI [of _ w2]) simp_all
  then show ?thesis unfolding plan_unmanaged_keys [OF assms(2)] .
qed

lemma newRow_cols:
  "newRow kind p w ks ! 1 = Hostname w"
  "newRow kind p w ks ! (4 + length ks) = PtrToStr (ExternalDataSet w)"
  "newRow kind p w ks ! (5 + length ks) = PtrToStr (ExternalDataReference w)"
  by (simp_all add: newRow_def nth_append)

lemma fromRow_newRow:
  "fromRow (length ks) (newRow kind p w ks) w2 \<Longrightarrow>
   Hostname w2 = Hostname w
   \<and> PtrToStr (ExternalDataSet w2) = PtrToStr (ExternalDataSet w)
   \<and> PtrToStr (ExternalDataReference w2) = PtrToStr (ExternalDataReference w)"
  unfolding fromRow_def newRow_cols by (simp add: PtrToStr_def)

lemma upsertRow_cases:
  assumes "upsertRow ks wk = Some r"
  shows "(PtrToStr (ExternalDataSet (workload wk)) \<noteq> ''wkld-replicate''
          \<and> r = newRow ''unmanaged workload on '' (pce wk) (stamped (pce wk) (workload wk)) ks)
       \<or> (PtrToStr (ExternalDataSet (workload wk)) = ''wkld-replicate''
          \<and> FQDN (pce wk)
                = SplitFirst (PtrToStr (ExternalDataReference (workload wk))) ''-unmanaged-wkld-''
          \<and> r = newRow ''unmanaged workload on '' (pce wk) (workload wk) ks)"
  using assms by (auto simp: upsertRow_def split: if_splits)

lemma staleIn_fields:
  "Hostname w2 = Hostname w \<Longrightarrow>
   PtrToStr (ExternalDataSet w2) = PtrToStr (ExternalDataSet w) \<Longrightarrow>
   PtrToStr (ExternalDataReference w2) = PtrToStr (ExternalDataReference w) \<Longrightarrow>
   staleIn st f w2 = staleIn st f w"
  by (simp add: staleIn_def)

lemma staleIn_managed:
  "Contains (PtrToStr (ExternalDataReference w)) ''-managed-wkld-'' \<Longrightarrow>
   map_of (managedWkldMap st)
     (SplitFirst (PtrToStr (ExternalDataReference w)) ''-managed-wkld-'' @ Hostname w) \<noteq> None \<Longrightarrow>
   \<not> staleIn st f w"
  by (simp add: staleIn_def Let_def)

lemma staleIn_unmanaged:
  "\<not> Contains (PtrToStr (ExternalDataReference w)) ''-managed-wkld-'' \<Longrightarrow>
   map_of (unmanagedWkldMap st)
     (SplitFirst (PtrToStr (ExternalDataReference w)) ''-unmanaged-wkld-'' @ Hostname w) \<noteq> None \<Longrightarrow>
   \<not> staleIn st f w"
  by (simp add: staleIn_def Let_def)

lemma staleIn_own:
  "f = SplitFirst (PtrToStr (ExternalDataReference w)) ''-unmanaged-wkld-'' \<Longrightarrow> \<not> staleIn st f w"
  by (simp add: staleIn_def Let_def)

lemma staleIn_unclaimed:
  "PtrToStr (ExternalDataSet w) \<noteq> ''wkld-replicate'' \<Longrightarrow> \<not> staleIn st f w"
  by (simp add: staleIn_def Let_def)

lemma staleInD:
  assumes "staleIn st f w"
  shows "if Contains (PtrToStr (ExternalDataReference w)) ''-managed-wkld-''
         then map_of (managedWkldMap st)
                (SplitFirst (PtrToStr (ExternalDataReference w)) ''-managed-wkld-'' @ Hostname w) = None
         else Contains (PtrToStr (ExternalDataReference w)) ''-unmanaged-wkld-''
            \<and> map_of (unmanagedWkldMap st)
                (SplitFirst (PtrToStr (ExternalDataReference w)) ''-unmanaged-wkld-'' @ Hostname w) = None"
  using assms by (simp add: staleIn_def Let_def)

lemma old_not_stale:
  assumes "makePlan cfg wd = Ok tr pl" and "makePlan cfg (nextWorld side pl wd) = Ok tr2 pl2"
    and "tidy wd pl" and "noChains wd pl"
    and "q \<in> set (planSources pl)" and "w \<in> set (unmanagedOf wd q)"
    and "\<not> staleIn (planState pl) (FQDN q) w" and "sameBut w w2"
  shows "\<not> staleIn (planState pl2) (FQDN q) w2"
proof
  let ?ref = "PtrToStr (ExternalDataReference w)"
  assume a2: "staleIn (planState pl2) (FQDN q) w2"
  have "staleIn (planState pl2) (FQDN q) w2 = staleIn (planState pl2) (FQDN q) w"
    using sameBut_fields [OF assms(8)] by (intro staleIn_fields) simp_all
  with a2 have s2: "staleIn (planState pl2) (FQDN q) w" by simp
  show False
  proof (cases "Contains ?ref ''-managed-wkld-''")
    case True
    with staleInD [OF s2] have none2: "map_of (managedWkldMap (planState pl2))
        (SplitFirst ?ref ''-managed-wkld-'' @ Hostname w) = None" by simp
    have "map_of (managedWkldMap (planState pl))
        (SplitFirst ?ref ''-managed-wkld-'' @ Hostname w) \<noteq> None"
      using assms(7) s2 True by (simp add: staleIn_def Let_def)
    from managed_keys_persist [OF assms(1,2,3) this] none2 show False by simp
  next
    case False
    with staleInD [OF s2] have cu: "Contains ?ref ''-unmanaged-wkld-''"
      and none2: "map_of (unmanagedWkldMap (planState pl2))
        (SplitFirst ?ref ''-unmanaged-wkld-'' @ Hostname w) = None" by simp_all
    have "map_of (unmanagedWkldMap (planState pl))
        (SplitFirst ?ref ''-unmanaged-wkld-'' @ Hostname w) \<noteq> None"
      using assms(7) s2 False by (simp add: staleIn_def Let_def)
    then obtain q' u where q': "q' \<in> set (planSources pl)" and u: "u \<in> set (unmanagedOf wd q')"
      and k: "SplitFirst ?ref ''-unmanaged-wkld-'' @ Hostname w = FQDN q' @ Hostname u"
      unfolding plan_unmanaged_keys [OF assms(1)] by blast
    have "\<not> staleIn (planState pl) (FQDN q') u"
    proof
      assume "staleIn (planState pl) (FQDN q') u"
      with assms(4) q' u have "\<forall>q'' \<in> set (planSources pl). \<forall>w' \<in> set (unmanagedOf wd q'').
           Contains (PtrToStr (ExternalDataReference w')) ''-unmanaged-wkld-'' \<longrightarrow>
           SplitFirst (PtrToStr (ExternalDataReference w')) ''-unmanaged-wkld-'' @ Hostname w'
             \<noteq> FQDN q' @ Hostname u"
        unfolding noChains_alt by blast
      with assms(5,6) cu
      have "SplitFirst ?ref ''-unmanaged-wkld-'' @ Hostname w \<noteq> FQDN q' @ Hostname u"
        by blast
      with k show False by simp
    qed
    from unmanaged_key_persists [OF assms(1,2,3) q' u this] none2 k show False by simp
  qed
qed

lemma new_not_stale:
  assumes "makePlan cfg wd = Ok tr pl" and "makePlan cfg (nextWorld side pl wd) = Ok tr2 pl2"
    and "tidy wd pl"
    and "r \<in> set (tl (wkldImportCsvData (planState pl)))"
    and "fromRow (length (planKeys pl)) r w2"
  shows "\<not> staleIn (planState pl2) f w2"
proof -
  let ?ks = "planKeys pl"
  from plan_rows [OF assms(1,4)] show ?thesis
  proof
    assume "\<exists>q \<in> set (planSources pl). \<exists>m \<in> set (managedOf wd q).
            r = managedRow ?ks q (wkldsOf wd q) m"
    then obtain q m where q: "q \<in> set (planSources pl)" and m: "m \<in> set (managedOf wd q)"
      and r: "r = managedRow ?ks q (wkldsOf wd q) m" by blast
    let ?m' = "m\<lparr>ExternalDataSet := Some ''wkld-replicate'',
          ExternalDataReference := Some (FQDN q @ ''-managed-wkld-'' @ Href m)\<rparr>"
    from assms(5) have "fromRow (length ?ks) (newRow ''managed ven on '' (q\<lparr>WorkloadsSlice := wkldsOf wd q\<rparr>) ?m' ?ks) w2"
      by (simp add: r managedRow_def)
    from fromRow_newRow [OF this]
    have h: "Hostname w2 = Hostname m"
      and ref: "PtrToStr (ExternalDataReference w2) = FQDN q @ ''-managed-wkld-'' @ Href m"
      by (simp_all add: PtrToStr_def)
    have c: "Contains (PtrToStr (ExternalDataReference w2)) ''-managed-wkld-''"
      unfolding ref by (rule Contains_mid)
    have sp: "SplitFirst (PtrToStr (ExternalDataReference w2)) ''-managed-wkld-'' = FQDN q"
      unfolding ref by (rule tidy_split(1) [OF assms(3) q])
    have "\<exists>q' \<in> set (planSources pl). \<exists>w \<in> set (managedOf wd q'). FQDN q @ Hostname m = FQDN q' @ Hostname w"
      using q m by blast
    then have "map_of (managedWkldMap (planState pl)) (FQDN q @ Hostname m) \<noteq> None"
      unfolding plan_managed_keys [OF assms(1)] .
    from managed_keys_persist [OF assms(1,2,3) this]
    have "map_of (managedWkldMap (planState pl2))
            (SplitFirst (PtrToStr (ExternalDataReference w2)) ''-managed-wkld-'' @ Hostname w2) \<noteq> None"
      by (simp add: sp h)
    with c show ?thesis by (rule staleIn_managed)
  next
    assume "\<exists>q \<in> set (planSources pl). \<exists>u \<in> set (unmanagedOf wd q).
            upsertRow ?ks (snd (entryOf q (wkldsOf wd q) u)) = Some r"
    then obtain q u where q: "q \<in> set (planSources pl)" and u: "u \<in> set (unmanagedOf wd q)"
      and r: "upsertRow ?ks (snd (entryOf q (wkldsOf wd q) u)) = Some r" by blast
    let ?q' = "q\<lparr>WorkloadsSlice := wkldsOf wd q\<rparr>"
    from upsertRow_cases [OF r]
    have "(PtrToStr (ExternalDataSet u) \<noteq> ''wkld-replicate''
          \<and> r = newRow ''unmanaged workload on '' ?q' (stamped ?q' u) ?ks)
       \<or> (PtrToStr (ExternalDataSet u) = ''wkld-replicate''
          \<and> FQDN q = SplitFirst (PtrToStr (ExternalDataReference u)) ''-unmanaged-wkld-''
          \<and> r = newRow ''unmanaged workload on '' ?q' u ?ks)"
      by simp
    then show ?thesis
    proof
      assume a: "PtrToStr (ExternalDataSet u) \<noteq> ''wkld-replicate''
          \<and> r = newRow ''unmanaged workload on '' ?q' (stamped ?q' u) ?ks"
      with assms(5) have "fromRow (length ?ks) (newRow ''unmanaged workload on '' ?q' (stamped ?q' u) ?ks) w2"
        by simp
      from fromRow_newRow [OF this]
      have h: "Hostname w2 = Hostname u"
        and ref: "PtrToStr (ExternalDataReference w2) = FQDN q @ ''-unmanaged-wkld-'' @ Href u"
        by (simp_all add: PtrToStr_def stamped_def)
      have nc: "\<not> Contains (PtrToStr (ExternalDataReference w2)) ''-managed-wkld-''"
        unfolding ref using a by (intro tidy_refs(1) [OF assms(3) q u]) simp
      have sp: "SplitFirst (PtrToStr (ExternalDataReference w2)) ''-unmanaged-wkld-'' = FQDN q"
        unfolding ref by (rule tidy_split(2) [OF assms(3) q])
      have "\<not> staleIn (planState pl) (FQDN q) u"
        using a by (intro staleIn_unclaimed) simp
      from unmanaged_key_persists [OF assms(1,2,3) q u this]
      have "map_of (unmanagedWkldMap (planState pl2))
              (SplitFirst (PtrToStr (ExternalDataReference w2)) ''-unmanaged-wkld-'' @ Hostname w2) \<noteq> None"
        by (simp add: sp h)
      with nc show ?thesis by (rule staleIn_unmanaged)
    next
      assume a: "PtrToStr (ExternalDataSet u) = ''wkld-replicate''
          \<and> FQDN q = SplitFirst (PtrToStr (ExternalDataReference u)) ''-unmanaged-wkld-''
          \<and> r = newRow ''unmanaged workload on '' ?q' u ?ks"
      with assms(5) have "fromRow (length ?ks) (newRow ''unmanaged workload on '' ?q' u ?ks) w2"
        by simp
      from fromRow_newRow [OF this]
      have h: "Hostname w2 = Hostname u"
        and ref: "PtrToStr (ExternalDataReference w2) = PtrToStr (ExternalDataReference u)"
        by simp_all
      have own: "FQDN q = SplitFirst (PtrToStr (ExternalDataReference u)) ''-unmanaged-wkld-''"
        using a by simp
      have nc: "\<not> Contains (PtrToStr (ExternalDataReference w2)) ''-managed-wkld-''"
        unfolding ref using a by (intro tidy_refs(2) [OF assms(3) q u]) simp_all
      have "\<not> staleIn (planState pl) (FQDN q) u"
        using own by (rule staleIn_own)
      from unmanaged_key_persists [OF assms(1,2,3) q u this]
      have "map_of (unmanagedWkldMap (planState pl2))
              (SplitFirst (PtrToStr (ExternalDataReference w2)) ''-unmanaged-wkld-'' @ Hostname w2) \<noteq> None"
        by (simp add: ref own [symmetric] h)
      with nc show ?thesis by (rule staleIn_unmanaged)
    qed
  qed
qed

lemma second_not_stale:
  assumes "makePlan cfg wd = Ok tr pl" and "makePlan cfg (nextWorld side pl wd) = Ok tr2 pl2"
    and "tidy wd pl" and "noChains wd pl"
    and "q \<in> set (planSources pl)" and "w2 \<in> set (unmanagedOf (nextWorld side pl wd) q)"
  shows "\<not> staleIn (planState pl2) (FQDN q) w2"
proof -
  from assms(6) have in2: "w2 \<in> set (applied side pl q (wkldsOf wd q))"
    and m2: "Mode w2 = ''unmanaged''"
    by (simp_all add: unmanagedOf_iff second_wklds [OF assms(1,5)])
  from applied_old_or_new [OF in2] show ?thesis
  proof
    assume "\<exists>w \<in> set (wkldsOf wd q). sameBut w w2"
    then obtain w where w: "w \<in> set (wkldsOf wd q)" and s: "sameBut w w2" by blast
    from sameBut_fields [OF s] m2 have "Mode w = ''unmanaged''" and hr: "Href w2 = Href w" by simp_all
    with w have wu: "w \<in> set (unmanagedOf wd q)" by (simp add: unmanagedOf_iff)
    have "\<not> staleIn (planState pl) (FQDN q) w"
    proof
      assume "staleIn (planState pl) (FQDN q) w"
      from plan_scheduled_conv [OF assms(1) tidy_keys [OF assms(3)] assms(5) wu this]
      have "Href w \<in> set (hrefsOf (deleteHrefMap (planState pl)) (FQDN q))"
        and "1 < length (wkldDeleteCsvdata (planState pl))" by simp_all
      with applied_not_deleted [OF in2] hr show False by simp
    qed
    from old_not_stale [OF assms(1,2,3,4,5) wu this s] show ?thesis .
  next
    assume "\<exists>r \<in> set (tl (wkldImportCsvData (planState pl))). fromRow (length (planKeys pl)) r w2"
    then obtain r where "r \<in> set (tl (wkldImportCsvData (planState pl)))"
      and "fromRow (length (planKeys pl)) r w2" by blast
    from new_not_stale [OF assms(1,2,3) this] show ?thesis .
  qed
qed

lemmas second_defs = secondPlan_def deleteBatch_def nextWorld_def applied_def ImportWkldsFromCSV_def
  importRow_def created_def removeHrefs_def exSide_def

text \<open>
  Against claim C2: \<^verbatim>\<open>B\<close> has a proxy of a workload of \<^verbatim>\<open>C\<close>, which is itself the proxy of a
  workload that is gone. The first run deletes the proxy on \<^verbatim>\<open>C\<close> and nothing else (its upsert
  batch is empty); the second run, in the state the first one leaves, deletes the proxy on
  \<^verbatim>\<open>B\<close>. Each run resolves one hop.
\<close>

theorem second_run_counterexample:
  "filter mutation (trace (wkldReplicate exChainConfig exChainWorld)) =
     [DeleteHrefCall ''C'' ''c.example'' ''/w/c'']
   \<and> deleteBatch (secondPlan exSide exChainConfig exChainWorld) =
     [[''href'', ''pce_fqdn'', ''pce_name''], [''/w/b'', ''b.example'', ''B'']]"
  by (simp add: ex_defs exC_def exChainB_def exChainC_def exChainConfig_def exChainWorld_def
      run_defs second_defs mutation_def)

text \<open>
  Claim C2, amended. A first run is carried out: on every instance its upsert batch is
  imported and its deletes are applied, and nothing else changes. When no workload that the
  first run deletes is named in the \<^verbatim>\<open>-unmanaged-wkld-\<close> reference of a collected workload, and
  the collected state is tidy, the delete batch of the second run has no row besides the
  header.
\<close>

theorem second_run_deletes_nothing:
  assumes "makePlan cfg wd = Ok tr pl" and "tidy wd pl" and "noChains wd pl"
  shows "tl (deleteBatch (secondPlan side cfg wd)) = []"
proof (cases "makePlan cfg (nextWorld side pl wd)")
  case (Fatal tr2 msg)
  then show ?thesis using assms(1) by (simp add: secondPlan_def deleteBatch_def)
next
  case (Ok tr2 pl2)
  let ?xs = "map snd (unmanagedWkldMap (planState pl2))"
  have "\<not> staleIn (planState pl2) (FQDN (pce wk)) (workload wk)" if "wk \<in> set ?xs" for wk
  proof -
    from plan_entries_sub [OF Ok that] obtain q w where
      q: "q \<in> set (planSources pl2)" and w: "w \<in> set (unmanagedOf (nextWorld side pl wd) q)"
      and wk: "wk = snd (entryOf q (wkldsOf (nextWorld side pl wd) q) w)" by blast
    from q have q1: "q \<in> set (planSources pl)" using second_config(1) [OF assms(1) Ok] by simp
    from second_not_stale [OF assms(1) Ok assms(2,3) q1 w] show ?thesis by (simp add: wk)
  qed
  then have "filter (\<lambda>wk. staleIn (planState pl2) (FQDN (pce wk)) (workload wk)) ?xs = []"
    by (simp add: filter_empty_conv)
  then have "tl (wkldDeleteCsvdata (planState pl2)) = []"
    unfolding plan_shape(3) [OF Ok] by simp
  then show ?thesis using assms(1) Ok by (simp add: secondPlan_def deleteBatch_def)
qed

theorem second_run_deletes_nothing_witness:
  "deleteBatch (makePlan exConfig exWorld) =
     [[''href'', ''pce_fqdn'', ''pce_name''], [''/w/4'', ''b.example'', ''B'']]
   \<and> tl (deleteBatch (secondPlan exSide exConfig exWorld)) = []"
proof -
  obtain tr pl where p: "makePlan exConfig exWorld = Ok tr pl"
    and d: "wkldDeleteCsvdata (planState pl) =
              [[''href'', ''pce_fqdn'', ''pce_name''], [''/w/4'', ''b.example'', ''B'']]"
    and t: "tidy exWorld pl" and n: "noChains exWorld pl"
    by (simp add: ex_defs run_defs tidy_def noChains_def planSources_def sourcesOf_def
        wkldsOf_def unmanagedOf_def staleIn_def)
  from second_run_deletes_nothing [OF p t n, of exSide] p d show ?thesis
    by (simp add: deleteBatch_def)
qed

text \<open>
  Two states that are not tidy, where the second run deletes: two proxies with one hostname on
  an instance (the map keeps one of them for each run), and an instance whose address
  contains \<^verbatim>\<open>-managed-wkld-\<close> (the proxies created by the first run do not lead back to it).
\<close>

lemma second_run_twin_example:
  "tl (deleteBatch (makePlan exConfig exTwinWorld)) = [[''/w/4b'', ''b.example'', ''B'']]
   \<and> tl (deleteBatch (secondPlan exSide exConfig exTwinWorld)) = [[''/w/4'', ''b.example'', ''B'']]"
  by (simp add: ex_defs exTwin_def exTwinWorld_def run_defs second_defs)

lemma second_run_delimiter_example:
  "tl (deleteBatch (makePlan exConfig exOddWorld)) = []
   \<and> tl (deleteBatch (secondPlan exSide exConfig exOddWorld)) =
       [[''/w/new-h1'', ''b.example'', ''B'']]"
  by (simp add: ex_defs exOddA_def exOddWorld_def run_defs second_defs)


section \<open>The batches of a run, workload by workload\<close>

lemma filter_map_filter_one:
  "distinct xs \<Longrightarrow> \<forall>y \<in> set xs. \<forall>r. f y = Some r \<longrightarrow> (P r \<longleftrightarrow> y = x) \<Longrightarrow>
   filter P (List.map_filter f xs)
     = (if x \<in> set xs then (case f x of None \<Rightarrow> [] | Some r \<Rightarrow> [r]) else [])"
  by (induction xs) (auto simp: List.map_filter_simps split: option.splits)

lemma filter_map_one:
  "distinct xs \<Longrightarrow> \<forall>y \<in> set xs. S y \<longrightarrow> (P (g y) \<longleftrightarrow> y = x) \<Longrightarrow>
   filter P (map g (filter S xs)) = (if x \<in> set xs \<and> S x then [g x] else [])"
  by (induction xs) auto

lemma hrefs_concat_entries:
  "map (\<lambda>e. (FQDN (pce (snd e)), Href (workload (snd e))))
     (concat (map (\<lambda>q. map (entryOf q (W q)) (L q)) src)) =
   concat (map (\<lambda>q. map (\<lambda>w. (FQDN q, Href w)) (L q)) src)"
  by (induction src) simp_all

lemma plan_entries_eq:
  assumes "makePlan cfg wd = Ok tr pl" and "distinctKeys wd pl"
  shows "unmanagedWkldMap (planState pl) =
           concat (map (\<lambda>q. map (entryOf q (wkldsOf wd q)) (unmanagedOf wd q)) (planSources pl))"
proof -
  let ?kvs = "concat (map (\<lambda>q. map (entryOf q (wkldsOf wd q)) (unmanagedOf wd q)) (planSources pl))"
  have "map fst ?kvs = concat (map (\<lambda>q. map (\<lambda>w. FQDN q @ Hostname w) (unmanagedOf wd q))
                           (planSources pl))"
    by (rule fst_concat_entries)
  with assms(2) have "distinct (map fst ([] @ ?kvs))" by (simp add: distinctKeys_def)
  from inserts_distinct [OF this] have "inserts [] ?kvs = ?kvs" by simp
  then show ?thesis
    unfolding plan_shape(1) [OF assms(1)] planSources_def .
qed

lemma plan_entries_distinct:
  assumes "makePlan cfg wd = Ok tr pl" and "distinctKeys wd pl"
  shows "distinct (map snd (unmanagedWkldMap (planState pl)))"
    and "inj_on (\<lambda>y. FQDN (pce y) @ Hostname (workload y))
           (set (map snd (unmanagedWkldMap (planState pl))))"
proof -
  let ?E = "concat (map (\<lambda>q. map (entryOf q (wkldsOf wd q)) (unmanagedOf wd q)) (planSources pl))"
  let ?key = "\<lambda>y. FQDN (pce y) @ Hostname (workload y)"
  have eq: "unmanagedWkldMap (planState pl) = ?E" by (rule plan_entries_eq [OF assms])
  have d: "distinct (map fst ?E)"
    using assms(2) unfolding distinctKeys_def fst_concat_entries .
  have "map fst ?E = map (\<lambda>e. ?key (snd e)) ?E"
  proof (rule map_cong [OF refl])
    fix e assume "e \<in> set ?E"
    then obtain q w where "e = entryOf q (wkldsOf wd q) w"
      unfolding in_concat_entries by blast
    then show "fst e = ?key (snd e)" by simp
  qed
  then have "map fst ?E = map ?key (map snd ?E)" by (simp add: comp_def)
  with d have "distinct (map ?key (map snd ?E))" by simp
  then have "distinct (map snd ?E) \<and> inj_on ?key (set (map snd ?E))"
    by (simp only: distinct_map)
  then show "distinct (map snd (unmanagedWkldMap (planState pl)))"
    and "inj_on ?key (set (map snd (unmanagedWkldMap (planState pl))))"
    unfolding eq by blast+
qed

lemma plan_hrefs_inj:
  assumes "makePlan cfg wd = Ok tr pl" and "distinctKeys wd pl" and "distinctHrefs wd pl"
  shows "inj_on (\<lambda>y. (FQDN (pce y), Href (workload y)))
           (set (map snd (unmanagedWkldMap (planState pl))))"
proof -
  let ?E = "concat (map (\<lambda>q. map (entryOf q (wkldsOf wd q)) (unmanagedOf wd q)) (planSources pl))"
  let ?key = "\<lambda>y. (FQDN (pce y), Href (workload y))"
  have eq: "unmanagedWkldMap (planState pl) = ?E" by (rule plan_entries_eq [OF assms(1,2)])
  have "distinct (map (\<lambda>e. ?key (snd e)) ?E)"
    using assms(3) unfolding distinctHrefs_def hrefs_concat_entries .
  then have "distinct (map ?key (map snd ?E))" by (simp add: comp_def)
  then have "inj_on ?key (set (map snd ?E))"
    by (simp only: distinct_map)
  then show ?thesis unfolding eq .
qed

lemma same_key_entry:
  assumes "makePlan cfg wd = Ok tr pl" and "distinctKeys wd pl"
    and "q \<in> set (planSources pl)" and "w \<in> set (unmanagedOf wd q)"
    and "y \<in> set (map snd (unmanagedWkldMap (planState pl)))"
  shows "(Hostname (workload y) = Hostname w \<and> FQDN (pce y) = FQDN q)
         \<longleftrightarrow> y = snd (entryOf q (wkldsOf wd q) w)"
proof
  assume a: "Hostname (workload y) = Hostname w \<and> FQDN (pce y) = FQDN q"
  let ?wk = "snd (entryOf q (wkldsOf wd q) w)"
  have wk: "?wk \<in> set (map snd (unmanagedWkldMap (planState pl)))"
    by (rule plan_entries_all [OF assms(1) assms(2) [unfolded distinctKeys_def] assms(3,4)])
  have "FQDN (pce y) @ Hostname (workload y) = FQDN (pce ?wk) @ Hostname (workload ?wk)"
    using a by simp
  from inj_onD [OF plan_entries_distinct(2) [OF assms(1,2)] this assms(5) wk]
  show "y = ?wk" .
next
  assume "y = snd (entryOf q (wkldsOf wd q) w)"
  then show "Hostname (workload y) = Hostname w \<and> FQDN (pce y) = FQDN q" by simp
qed

lemma same_href_entry:
  assumes "makePlan cfg wd = Ok tr pl" and "distinctKeys wd pl" and "distinctHrefs wd pl"
    and "q \<in> set (planSources pl)" and "w \<in> set (unmanagedOf wd q)"
    and "y \<in> set (map snd (unmanagedWkldMap (planState pl)))"
  shows "(Href (workload y) = Href w \<and> FQDN (pce y) = FQDN q)
         \<longleftrightarrow> y = snd (entryOf q (wkldsOf wd q) w)"
proof
  assume a: "Href (workload y) = Href w \<and> FQDN (pce y) = FQDN q"
  let ?wk = "snd (entryOf q (wkldsOf wd q) w)"
  have wk: "?wk \<in> set (map snd (unmanagedWkldMap (planState pl)))"
    by (rule plan_entries_all [OF assms(1) assms(2) [unfolded distinctKeys_def] assms(4,5)])
  have "(FQDN (pce y), Href (workload y)) = (FQDN (pce ?wk), Href (workload ?wk))"
    using a by simp
  from inj_onD [OF plan_hrefs_inj [OF assms(1,2,3)] this assms(6) wk]
  show "y = ?wk" .
next
  assume "y = snd (entryOf q (wkldsOf wd q) w)"
  then show "Href (workload y) = Href w \<and> FQDN (pce y) = FQDN q" by simp
qed

lemma managedRow_not_unmanaged:
  "managedRow ks q ws m ! 2 \<noteq> ''unmanaged workload on '' @ f"
  by (simp add: managedRow_def newRow_def)

lemma upsertRow_names:
  assumes "upsertRow ks y = Some r"
  shows "r ! 1 = Hostname (workload y)"
    and "r ! 2 = ''unmanaged workload on '' @ FQDN (pce y)"
  using upsertRow_cases [OF assms] by (auto simp: newRow_def stamped_def)

lemma plan_upsertsFor:
  assumes "makePlan cfg wd = Ok tr pl" and "distinctKeys wd pl"
    and "q \<in> set (planSources pl)" and "w \<in> set (unmanagedOf wd q)"
  shows "upsertsFor q w (planState pl) =
           (case upsertRow (planKeys pl) (snd (entryOf q (wkldsOf wd q) w)) of
              None \<Rightarrow> [] | Some r \<Rightarrow> [r])"
proof -
  let ?wk = "snd (entryOf q (wkldsOf wd q) w)"
  let ?X = "map snd (unmanagedWkldMap (planState pl))"
  let ?P = "\<lambda>r. r ! 1 = Hostname w \<and> r ! 2 = ''unmanaged workload on '' @ FQDN q"
  let ?M = "concat (map (\<lambda>q. map (managedRow (planKeys pl) q (wkldsOf wd q)) (managedOf wd q))
                         (sourcesOf (planSkip pl) (planPces pl)))"
  have wk: "?wk \<in> set ?X"
    by (rule plan_entries_all [OF assms(1) assms(2) [unfolded distinctKeys_def] assms(3,4)])
  have "\<not> ?P r" if "r \<in> set ?M" for r
  proof -
    from that obtain q' m where "r = managedRow (planKeys pl) q' (wkldsOf wd q') m"
      by auto
    then show ?thesis using managedRow_not_unmanaged by blast
  qed
  then have m: "filter ?P ?M = []"
    unfolding filter_empty_conv by blast
  have c: "\<forall>y \<in> set ?X. \<forall>r. upsertRow (planKeys pl) y = Some r \<longrightarrow> (?P r \<longleftrightarrow> y = ?wk)"
  proof (intro ballI allI impI)
    fix y r assume y: "y \<in> set ?X" and r: "upsertRow (planKeys pl) y = Some r"
    have "?P r \<longleftrightarrow> Hostname (workload y) = Hostname w \<and> FQDN (pce y) = FQDN q"
      unfolding upsertRow_names [OF r] by simp
    then show "?P r \<longleftrightarrow> y = ?wk"
      using same_key_entry [OF assms y] by simp
  qed
  have u: "filter ?P (List.map_filter (upsertRow (planKeys pl)) ?X)
             = (case upsertRow (planKeys pl) ?wk of None \<Rightarrow> [] | Some r \<Rightarrow> [r])"
    using filter_map_filter_one [OF plan_entries_distinct(1) [OF assms(1,2)] c] wk by simp
  show ?thesis
    unfolding upsertsFor_def plan_shape(5) [OF assms(1)] using m u by simp
qed

lemma plan_deletesFor:
  assumes "makePlan cfg wd = Ok tr pl" and "distinctKeys wd pl" and "distinctHrefs wd pl"
    and "q \<in> set (planSources pl)" and "w \<in> set (unmanagedOf wd q)"
  shows "deletesFor q w (planState pl) =
           (if staleIn (planState pl) (FQDN q) w then [[Href w, FQDN q, FriendlyName q]] else [])"
proof -
  let ?wk = "snd (entryOf q (wkldsOf wd q) w)"
  let ?X = "map snd (unmanagedWkldMap (planState pl))"
  let ?P = "\<lambda>r. r ! 0 = Href w \<and> r ! 1 = FQDN q"
  let ?S = "\<lambda>wk. staleIn (planState pl) (FQDN (pce wk)) (workload wk)"
  have wk: "?wk \<in> set ?X"
    by (rule plan_entries_all [OF assms(1) assms(2) [unfolded distinctKeys_def] assms(4,5)])
  have c: "\<forall>y \<in> set ?X. ?S y \<longrightarrow> (?P (deleteRow y) \<longleftrightarrow> y = ?wk)"
  proof (intro ballI impI)
    fix y assume y: "y \<in> set ?X"
    have "?P (deleteRow y) \<longleftrightarrow> Href (workload y) = Href w \<and> FQDN (pce y) = FQDN q"
      by (simp add: deleteRow_def)
    then show "?P (deleteRow y) \<longleftrightarrow> y = ?wk"
      using same_href_entry [OF assms y] by simp
  qed
  have "filter ?P (map deleteRow (filter ?S ?X)) = (if ?wk \<in> set ?X \<and> ?S ?wk then [deleteRow ?wk] else [])"
    by (rule filter_map_one [where P = ?P and g = deleteRow and S = ?S,
          OF plan_entries_distinct(1) [OF assms(1,2)] c])
  then show ?thesis
    unfolding deletesFor_def plan_shape(3) [OF assms(1)] using wk by (simp add: deleteRow_def)
qed

lemma plan_hrefs_for:
  assumes "makePlan cfg wd = Ok tr pl" and "distinctKeys wd pl" and "distinctHrefs wd pl"
    and "q \<in> set (planSources pl)" and "w \<in> set (unmanagedOf wd q)"
  shows "Href w \<in> set (hrefsOf (deleteHrefMap (planState pl)) (FQDN q))
         \<longleftrightarrow> staleIn (planState pl) (FQDN q) w"
proof
  assume "Href w \<in> set (hrefsOf (deleteHrefMap (planState pl)) (FQDN q))"
  from plan_scheduled [OF assms(1) this] obtain q' d where
    q': "q' \<in> set (planSources pl)" and d: "d \<in> set (unmanagedOf wd q')"
    and s: "staleIn (planState pl) (FQDN q') d" and f: "FQDN q' = FQDN q" and h: "Href d = Href w"
    by blast
  let ?y = "snd (entryOf q' (wkldsOf wd q') d)"
  have y: "?y \<in> set (map snd (unmanagedWkldMap (planState pl)))"
    by (rule plan_entries_all [OF assms(1) assms(2) [unfolded distinctKeys_def] q' d])
  have "Href (workload ?y) = Href w \<and> FQDN (pce ?y) = FQDN q" using f h by simp
  then have "?y = snd (entryOf q (wkldsOf wd q) w)"
    using same_href_entry [OF assms y] by blast
  then have "workload ?y = w" by (metis entryOf_simps(3))
  then have "d = w" by simp
  with s f show "staleIn (planState pl) (FQDN q) w" by simp
next
  assume "staleIn (planState pl) (FQDN q) w"
  from plan_scheduled_conv [OF assms(1) assms(2) [unfolded distinctKeys_def] assms(4,5) this]
  show "Href w \<in> set (hrefsOf (deleteHrefMap (planState pl)) (FQDN q))" by simp
qed

lemmas rule_defs = distinctKeys_def distinctHrefs_def planSources_def sourcesOf_def wkldsOf_def
  unmanagedOf_def upsertsFor_def deletesFor_def

text \<open>
  Against claim C1: \<^verbatim>\<open>B\<close> has two proxies, \<^verbatim>\<open>/w/4\<close> and \<^verbatim>\<open>/w/4b\<close>, with the hostname \<^verbatim>\<open>h7\<close> of a
  managed workload that \<^verbatim>\<open>A\<close> no longer has. Both are collected, and \<^verbatim>\<open>/w/4\<close> meets the
  conditions of the rule with a key that is not in the managed map. The unmanaged map keeps
  the second of them under their common key (line 177) and the loop of line 195 ranges over
  the map: no delete is scheduled for \<^verbatim>\<open>/w/4\<close>.
\<close>

theorem twin_proxy_counterexample:
  "GetWklds exTwinWorld exB = Inr [exStale, exTwin]
   \<and> Mode exStale = ''unmanaged'' \<and> Href exStale = ''/w/4''
   \<and> PtrToStr (ExternalDataSet exStale) = ''wkld-replicate''
   \<and> FQDN exB \<noteq> SplitFirst (PtrToStr (ExternalDataReference exStale)) ''-unmanaged-wkld-''
   \<and> Contains (PtrToStr (ExternalDataReference exStale)) ''-managed-wkld-''
   \<and> SplitFirst (PtrToStr (ExternalDataReference exStale)) ''-managed-wkld-'' @ Hostname exStale
       = ''a.exampleh7''
   \<and> managedKeys (makePlan exConfig exTwinWorld) = [''a.exampleh1'']
   \<and> deleteBatch (makePlan exConfig exTwinWorld) =
       [[''href'', ''pce_fqdn'', ''pce_name''], [''/w/4b'', ''b.example'', ''B'']]
   \<and> hrefsToDelete (makePlan exConfig exTwinWorld) ''b.example'' = [''/w/4b'']"
  by (simp add: ex_defs exTwin_def exTwinWorld_def run_defs deleteBatch_def managedKeys_def
      hrefsToDelete_def)

text \<open>
  Claim C1, amended. In a run where no two collected unmanaged workloads have the same map key,
  and no two the same address and href: for every collected unmanaged workload with external
  data set \<^verbatim>\<open>wkld-replicate\<close>, whose reference does not start with the address of its own
  instance before \<^verbatim>\<open>-unmanaged-wkld-\<close> and contains \<^verbatim>\<open>-managed-wkld-\<close>: when the key made of the
  text before \<^verbatim>\<open>-managed-wkld-\<close> and the hostname is not in the managed map, the delete batch has
  exactly one row for it, with its href, the address and the name of its instance, and its href
  is among those to delete on the address; when the key is in the managed map, the delete
  batch has no row for it and its href is not among those to delete on the address. In both
  cases the upsert batch has no row for it.
\<close>

theorem managed_proxy_delete:
  assumes "makePlan cfg wd = Ok tr pl"
    and "distinctKeys wd pl" and "distinctHrefs wd pl"
    and "q \<in> set (planSources pl)" and "w \<in> set (unmanagedOf wd q)"
    and "PtrToStr (ExternalDataSet w) = ''wkld-replicate''"
    and "FQDN q \<noteq> SplitFirst (PtrToStr (ExternalDataReference w)) ''-unmanaged-wkld-''"
    and "Contains (PtrToStr (ExternalDataReference w)) ''-managed-wkld-''"
  shows "(map_of (managedWkldMap (planState pl))
            (SplitFirst (PtrToStr (ExternalDataReference w)) ''-managed-wkld-'' @ Hostname w) = None
          \<longrightarrow> deletesFor q w (planState pl) = [[Href w, FQDN q, FriendlyName q]]
            \<and> Href w \<in> set (hrefsOf (deleteHrefMap (planState pl)) (FQDN q)))
       \<and> (map_of (managedWkldMap (planState pl))
            (SplitFirst (PtrToStr (ExternalDataReference w)) ''-managed-wkld-'' @ Hostname w) \<noteq> None
          \<longrightarrow> deletesFor q w (planState pl) = []
            \<and> Href w \<notin> set (hrefsOf (deleteHrefMap (planState pl)) (FQDN q)))
       \<and> upsertsFor q w (planState pl) = []"
proof -
  let ?key = "SplitFirst (PtrToStr (ExternalDataReference w)) ''-managed-wkld-'' @ Hostname w"
  have stale: "staleIn (planState pl) (FQDN q) w
                 \<longleftrightarrow> map_of (managedWkldMap (planState pl)) ?key = None"
    using assms(6-8) by (simp add: staleIn_def Let_def)
  have none: "upsertRow (planKeys pl) (snd (entryOf q (wkldsOf wd q) w)) = None"
    using assms(6,7) by (simp add: upsertRow_def)
  have d: "deletesFor q w (planState pl) =
      (if map_of (managedWkldMap (planState pl)) ?key = None
       then [[Href w, FQDN q, FriendlyName q]] else [])"
    unfolding plan_deletesFor [OF assms(1-5)] stale ..
  have h: "Href w \<in> set (hrefsOf (deleteHrefMap (planState pl)) (FQDN q))
             \<longleftrightarrow> map_of (managedWkldMap (planState pl)) ?key = None"
    unfolding plan_hrefs_for [OF assms(1-5)] stale ..
  have u: "upsertsFor q w (planState pl) = []"
    unfolding plan_upsertsFor [OF assms(1,2,4,5)] none by simp
  show ?thesis
    unfolding d h u by simp
qed

theorem managed_proxy_delete_witness:
  "\<exists>tr pl. makePlan exConfig exWorld = Ok tr pl
     \<and> deletesFor exB exStale (planState pl) = [[''/w/4'', ''b.example'', ''B'']]
     \<and> ''/w/4'' \<in> set (hrefsOf (deleteHrefMap (planState pl)) ''b.example'')
     \<and> deletesFor exB exProxy (planState pl) = []
     \<and> ''/w/3'' \<notin> set (hrefsOf (deleteHrefMap (planState pl)) ''b.example'')
     \<and> upsertsFor exB exStale (planState pl) = []"
proof -
  obtain tr pl where p: "makePlan exConfig exWorld = Ok tr pl"
    and k: "distinctKeys exWorld pl" and h: "distinctHrefs exWorld pl"
    and q: "exB \<in> set (planSources pl)"
    and m: "map fst (managedWkldMap (planState pl)) = [''a.exampleh1'']"
    by (simp add: ex_defs run_defs rule_defs)
  have w: "exStale \<in> set (unmanagedOf exWorld exB)" "exProxy \<in> set (unmanagedOf exWorld exB)"
    by (simp_all add: ex_defs unmanagedOf_def wkldsOf_def)
  have ks: "fst ` set (managedWkldMap (planState pl)) = set [''a.exampleh1'']"
    unfolding m [symmetric] by simp
  have absent: "map_of (managedWkldMap (planState pl))
      (SplitFirst (PtrToStr (ExternalDataReference exStale)) ''-managed-wkld-'' @ Hostname exStale)
        = None"
    by (simp add: map_of_eq_None_iff ks exStale_def PtrToStr_def)
  have present: "map_of (managedWkldMap (planState pl))
      (SplitFirst (PtrToStr (ExternalDataReference exProxy)) ''-managed-wkld-'' @ Hostname exProxy)
        \<noteq> None"
    by (simp add: map_of_eq_None_iff ks exProxy_def PtrToStr_def)
  have c1: "PtrToStr (ExternalDataSet exStale) = ''wkld-replicate''"
    "FQDN exB \<noteq> SplitFirst (PtrToStr (ExternalDataReference exStale)) ''-unmanaged-wkld-''"
    "Contains (PtrToStr (ExternalDataReference exStale)) ''-managed-wkld-''"
    by (simp_all add: ex_defs PtrToStr_def)
  have c2: "PtrToStr (ExternalDataSet exProxy) = ''wkld-replicate''"
    "FQDN exB \<noteq> SplitFirst (PtrToStr (ExternalDataReference exProxy)) ''-unmanaged-wkld-''"
    "Contains (PtrToStr (ExternalDataReference exProxy)) ''-managed-wkld-''"
    by (simp_all add: ex_defs PtrToStr_def)
  from managed_proxy_delete [OF p k h q w(1) c1] absent
  have 1: "deletesFor exB exStale (planState pl) = [[''/w/4'', ''b.example'', ''B'']]"
    "''/w/4'' \<in> set (hrefsOf (deleteHrefMap (planState pl)) ''b.example'')"
    "upsertsFor exB exStale (planState pl) = []"
    by (simp_all add: exB_def exStale_def)
  from managed_proxy_delete [OF p k h q w(2) c2] present
  have 2: "deletesFor exB exProxy (planState pl) = []"
    "''/w/3'' \<notin> set (hrefsOf (deleteHrefMap (planState pl)) ''b.example'')"
    by (simp_all add: exB_def exProxy_def)
  from p 1 2 show ?thesis by blast
qed

text \<open>
  Against claim C3: \<^verbatim>\<open>A\<close> has two unmanaged workloads with the hostname \<^verbatim>\<open>h2\<close>, \<^verbatim>\<open>/w/2\<close> and
  \<^verbatim>\<open>/w/2b\<close>, neither replicated before. Both are collected; the unmanaged map keeps the
  second under their common key, and the upsert batch has a row with the provenance of
  \<^verbatim>\<open>/w/2b\<close> and none with the provenance of \<^verbatim>\<open>/w/2\<close>.
\<close>

theorem shared_hostname_counterexample:
  "GetWklds exDupWorld exA = Inr [exManaged, exOrganic, exOrganicTwin]
   \<and> Mode exOrganic = ''unmanaged'' \<and> Href exOrganic = ''/w/2''
   \<and> PtrToStr (ExternalDataSet exOrganic) \<noteq> ''wkld-replicate''
   \<and> upsertBatch (makePlan exConfig exDupWorld) =
       [headerRow [''role''],
        [''A'', ''h1'', ''managed ven on a.example'', ''web'', ''eth0:10.0.0.1'', ''wkld-replicate'',
         ''a.example-managed-wkld-/w/1''],
        [''A'', ''h2'', ''unmanaged workload on a.example'', ''wkld-replicate-remove'', [],
         ''wkld-replicate'', ''a.example-unmanaged-wkld-/w/2b'']]"
  by (simp add: ex_defs exOrganicTwin_def exDupWorld_def run_defs upsertBatch_def emptyLabel_def)

text \<open>
  Claim C3, amended. In a run where no two collected unmanaged workloads have the same map key:
  for every collected unmanaged workload whose external data set is not \<^verbatim>\<open>wkld-replicate\<close>,
  the upsert batch has exactly one row for it; the row names its instance and its hostname,
  and has \<^verbatim>\<open>wkld-replicate\<close> as its external data set and the address of its instance,
  \<^verbatim>\<open>-unmanaged-wkld-\<close> and its href as its external data reference.
\<close>

theorem unclaimed_upsert:
  assumes "makePlan cfg wd = Ok tr pl" and "distinctKeys wd pl"
    and "q \<in> set (planSources pl)" and "w \<in> set (unmanagedOf wd q)"
    and "PtrToStr (ExternalDataSet w) \<noteq> ''wkld-replicate''"
  shows "\<exists>row. upsertsFor q w (planState pl) = [row]
           \<and> row ! 0 = FriendlyName q \<and> row ! 1 = Hostname w
           \<and> row ! (4 + length (planKeys pl)) = ''wkld-replicate''
           \<and> row ! (5 + length (planKeys pl)) = FQDN q @ ''-unmanaged-wkld-'' @ Href w"
proof -
  let ?wk = "snd (entryOf q (wkldsOf wd q) w)"
  let ?row = "newRow ''unmanaged workload on '' (pce ?wk) (stamped (pce ?wk) (workload ?wk))
                (planKeys pl)"
  have some: "upsertRow (planKeys pl) ?wk = Some ?row"
    using assms(5) by (simp add: upsertRow_def)
  have u: "upsertsFor q w (planState pl) = [?row]"
    unfolding plan_upsertsFor [OF assms(1-4)] some by simp
  have cols: "?row ! 0 = FriendlyName q" "?row ! 1 = Hostname w"
    "?row ! (4 + length (planKeys pl)) = ''wkld-replicate''"
    "?row ! (5 + length (planKeys pl)) = FQDN q @ ''-unmanaged-wkld-'' @ Href w"
    by (simp_all add: newRow_def nth_append stamped_def PtrToStr_def)
  show ?thesis
    using u cols by blast
qed

theorem unclaimed_upsert_witness:
  "\<exists>tr pl row. makePlan exConfig exWorld = Ok tr pl
     \<and> upsertsFor exA exOrganic (planState pl) = [row]
     \<and> row ! 0 = ''A'' \<and> row ! 1 = ''h2'' \<and> row ! 5 = ''wkld-replicate''
     \<and> row ! 6 = ''a.example-unmanaged-wkld-/w/2''"
proof -
  obtain tr pl where p: "makePlan exConfig exWorld = Ok tr pl"
    and k: "distinctKeys exWorld pl"
    and q: "exA \<in> set (planSources pl)"
    and n: "planKeys pl = [''role'']"
    by (simp add: ex_defs run_defs rule_defs)
  have w: "exOrganic \<in> set (unmanagedOf exWorld exA)"
    by (simp add: ex_defs unmanagedOf_def wkldsOf_def)
  have c: "PtrToStr (ExternalDataSet exOrganic) \<noteq> ''wkld-replicate''"
    by (simp add: exOrganic_def PtrToStr_def)
  from unclaimed_upsert [OF p k q w c] obtain row where
    "upsertsFor exA exOrganic (planState pl) = [row]"
    "row ! 0 = ''A''" "row ! 1 = ''h2''" "row ! 5 = ''wkld-replicate''"
    "row ! 6 = ''a.example-unmanaged-wkld-/w/2''"
    by (auto simp: n exA_def exOrganic_def)
  with p show ?thesis by blast
qed


end
